theory Spec2Isabelle
  imports Main "HOL-Library.Sublist"
begin

section \<open>Shared types (types.ts)\<close>

datatype CameraStatus = INACTIVE | LOADING | ACTIVE | SWAPPING

datatype EmbeddingStatus = Ready | Processing | Error

record Identity =
  identity_id :: string
  name :: string
  imageUrl :: string
  embeddingStatus :: EmbeddingStatus

text \<open>
  JavaScript truthiness of a \<^verbatim>\<open>string | null | undefined\<close> value: \<^verbatim>\<open>null\<close>,
  \<^verbatim>\<open>undefined\<close> and the empty string are falsy, every other string is truthy.
\<close>

definition truthy :: "string option \<Rightarrow> bool" where
  "truthy v = (case v of None \<Rightarrow> False | Some t \<Rightarrow> t \<noteq> [])"

text \<open>\<^verbatim>\<open>String.prototype.split(sep)\<close> for a one-character separator, and indexing
  of the resulting array (\<^verbatim>\<open>undefined\<close> out of range).\<close>

fun split_on :: "char \<Rightarrow> string \<Rightarrow> string list" where
  "split_on c [] = [[]]"
| "split_on c (x # xs) =
     (if x = c then [] # split_on c xs
      else (case split_on c xs of [] \<Rightarrow> [[x]] | y # ys \<Rightarrow> (x # y) # ys))"

definition at_index :: "'a list \<Rightarrow> nat \<Rightarrow> 'a option" where
  "at_index xs i = (if i < length xs then Some (xs ! i) else None)"

definition includes_char :: "string \<Rightarrow> char \<Rightarrow> bool" where
  "includes_char t c = (c \<in> set t)"

definition startsWith :: "string \<Rightarrow> string \<Rightarrow> bool" where
  "startsWith t p = prefix p t"

section \<open>The inference client (services/geminiService.ts)\<close>

text \<open>
  The remote call \<^verbatim>\<open>ai.models.generateContent\<close> is the environment: it either throws
  or returns a response. Of a response only \<^verbatim>\<open>response.text\<close> (refinement) and the
  \<^verbatim>\<open>inlineData\<close> of the parts of the first candidate (swap) are read.
\<close>

datatype refine_response = RefineThrows | RefineResponse "string option"

definition refineIdentity :: "refine_response \<Rightarrow> string option" where
  "refineIdentity r = (case r of RefineThrows \<Rightarrow> None | RefineResponse t \<Rightarrow> t)"

section \<open>The application component (App.tsx)\<close>

text \<open>
  The state hooks of \<^verbatim>\<open>App\<close>. The \<^verbatim>\<open>processing\<close> hook (simulated frame rate and
  face detection) only feeds the presentation layer and is left out. The field
  \<open>reading\<close> holds the names of the files whose \<^verbatim>\<open>FileReader\<close> has not fired
  \<^verbatim>\<open>onload\<close> yet, \<open>refining\<close> the \<^verbatim>\<open>newIdentity.id\<close> captured by every
  \<^verbatim>\<open>onload\<close> continuation that is suspended at \<^verbatim>\<open>await refineIdentity(...)\<close>.
\<close>

record App =
  identities :: "Identity list"
  activeIdentityId :: "string option"
  cameraStatus :: CameraStatus
  isUploading :: bool
  reading :: "string list"
  refining :: "string list"

definition INITIAL_IDENTITIES :: "Identity list" where
  "INITIAL_IDENTITIES =
     [\<lparr>identity_id = ''1'', name = ''Executive Professional'',
       imageUrl = ''https://images.unsplash.com/photo-1560250097-0b93528c311a?auto=format&fit=crop&q=80&w=400&h=400'',
       embeddingStatus = Ready\<rparr>,
      \<lparr>identity_id = ''2'', name = ''Creative Director'',
       imageUrl = ''https://images.unsplash.com/photo-1573496359142-b8d87734a5a2?auto=format&fit=crop&q=80&w=400&h=400'',
       embeddingStatus = Ready\<rparr>]"

definition app_init :: App where
  "app_init =
     \<lparr>identities = INITIAL_IDENTITIES, activeIdentityId = None, cameraStatus = INACTIVE,
      isUploading = False, reading = [], refining = []\<rparr>"

definition toggleCamera :: "App \<Rightarrow> App" where
  "toggleCamera s =
     s\<lparr>cameraStatus := (if cameraStatus s = INACTIVE then ACTIVE else INACTIVE)\<rparr>"

definition toggleSwap :: "App \<Rightarrow> App" where
  "toggleSwap s =
     (if cameraStatus s = INACTIVE then s
      else s\<lparr>cameraStatus := (if cameraStatus s = SWAPPING then ACTIVE else SWAPPING)\<rparr>)"

definition handleIdentitySelect :: "string \<Rightarrow> App \<Rightarrow> App" where
  "handleIdentitySelect i s =
     s\<lparr>activeIdentityId := (if Some i = activeIdentityId s then None else Some i)\<rparr>"

definition deleteIdentity :: "string \<Rightarrow> App \<Rightarrow> App" where
  "deleteIdentity i s =
     s\<lparr>identities := filter (\<lambda>x. identity_id x \<noteq> i) (identities s),
       activeIdentityId := (if activeIdentityId s = Some i then None else activeIdentityId s)\<rparr>"

text \<open>
  \<^verbatim>\<open>handleFileUpload\<close> runs in three pieces: the change handler itself (returns at
  once without a file, otherwise sets \<^verbatim>\<open>isUploading\<close> and starts the reader), the
  \<^verbatim>\<open>reader.onload\<close> callback up to its \<^verbatim>\<open>await\<close>, and the continuation after the
  \<^verbatim>\<open>await\<close>. The value \<open>now\<close> is \<^verbatim>\<open>Date.now().toString()\<close>, \<open>base64Data\<close> the data
  URL the reader produced. The continuation receives what \<^verbatim>\<open>refineIdentity\<close> returned
  and, as in the source, does not look at it.
\<close>

definition handleFileUpload :: "string option \<Rightarrow> App \<Rightarrow> App" where
  "handleFileUpload file s =
     (case file of None \<Rightarrow> s
      | Some fname \<Rightarrow> s\<lparr>isUploading := True, reading := reading s @ [fname]\<rparr>)"

definition reader_onload :: "string \<Rightarrow> string \<Rightarrow> string \<Rightarrow> App \<Rightarrow> App" where
  "reader_onload fname now base64Data s =
     s\<lparr>identities := identities s @
         [\<lparr>identity_id = now, name = hd (split_on (CHR ''.'') fname),
           imageUrl = base64Data, embeddingStatus = Processing\<rparr>],
       refining := refining s @ [now]\<rparr>"

definition reader_onload_resume :: "string \<Rightarrow> string option \<Rightarrow> App \<Rightarrow> App" where
  "reader_onload_resume newId refined s =
     s\<lparr>identities :=
         map (\<lambda>idty. if identity_id idty = newId then idty\<lparr>embeddingStatus := Ready\<rparr> else idty)
           (identities s),
       isUploading := False\<rparr>"

definition drop_at :: "nat \<Rightarrow> 'a list \<Rightarrow> 'a list" where
  "drop_at k xs = take k xs @ drop (Suc k) xs"

text \<open>
  The events the application reacts to. A card and its delete button exist only for an
  identity of the list, the persona button carries
  \<^verbatim>\<open>disabled={cameraStatus === CameraStatus.INACTIVE || !activeIdentityId}\<close>, the file
  input \<^verbatim>\<open>disabled={isUploading}\<close>; a disabled control fires no handler.
\<close>

datatype AppEvent =
    PowerClick
  | PersonaClick
  | CardClick string
  | DeleteClick string
  | FileChosen "string option"
  | ReaderLoaded nat string string
  | RefineSettled nat refine_response

definition persona_disabled :: "App \<Rightarrow> bool" where
  "persona_disabled s = (cameraStatus s = INACTIVE \<or> \<not> truthy (activeIdentityId s))"

definition persona_click :: "App \<Rightarrow> App" where
  "persona_click s = (if persona_disabled s then s else toggleSwap s)"

definition has_card :: "App \<Rightarrow> string \<Rightarrow> bool" where
  "has_card s i = (i \<in> set (map identity_id (identities s)))"

fun app_step :: "AppEvent \<Rightarrow> App \<Rightarrow> App" where
  "app_step PowerClick s = toggleCamera s"
| "app_step PersonaClick s = persona_click s"
| "app_step (CardClick i) s = (if has_card s i then handleIdentitySelect i s else s)"
| "app_step (DeleteClick i) s = (if has_card s i then deleteIdentity i s else s)"
| "app_step (FileChosen file) s = (if isUploading s then s else handleFileUpload file s)"
| "app_step (ReaderLoaded k now base64Data) s =
     (if k < length (reading s)
      then reader_onload (reading s ! k) now base64Data (s\<lparr>reading := drop_at k (reading s)\<rparr>)
      else s)"
| "app_step (RefineSettled k r) s =
     (if k < length (refining s)
      then reader_onload_resume (refining s ! k) (refineIdentity r)
             (s\<lparr>refining := drop_at k (refining s)\<rparr>)
      else s)"

definition app_run :: "AppEvent list \<Rightarrow> App" where
  "app_run es = foldl (\<lambda>s e. app_step e s) app_init es"

text \<open>The active identity as \<^verbatim>\<open>App\<close> computes it on every render
  (\<^verbatim>\<open>identities.find(i => i.id === activeIdentityId)\<close>) and the URL it passes down.\<close>

definition activeIdentity :: "App \<Rightarrow> Identity option" where
  "activeIdentity s =
     (case activeIdentityId s of None \<Rightarrow> None
      | Some i \<Rightarrow> find (\<lambda>x. identity_id x = i) (identities s))"

definition app_activeIdentityUrl :: "App \<Rightarrow> string option" where
  "app_activeIdentityUrl s = map_option imageUrl (activeIdentity s)"


section \<open>The swap request (services/geminiService.ts, performFaceSwap)\<close>

text \<open>
  A part of a request is an image (\<^verbatim>\<open>inlineData: {data, mimeType}\<close>) or a text. The
  cleaning expression \<^verbatim>\<open>x.includes(',') ? x.split(',')[1] : x\<close> yields a string or
  \<^verbatim>\<open>undefined\<close>; \<open>cleanPrevious\<close> adds the optional chaining on the third argument.
\<close>

datatype part = InlineData "string option" string | TextPart string

definition clean :: "string \<Rightarrow> string option" where
  "clean b64 =
     (if includes_char b64 (CHR '','') then at_index (split_on (CHR '','') b64) 1
      else Some b64)"

definition cleanPrevious :: "string option \<Rightarrow> string option" where
  "cleanPrevious previousResultBase64 =
     (case previousResultBase64 of None \<Rightarrow> None | Some p \<Rightarrow> clean p)"

definition newline :: string where
  "newline = [CHR 0x0A]"

text \<open>The template literal of the instruction block, line by line; the two
  interpolations are the only places where the argument is read.\<close>

definition instruction :: "bool \<Rightarrow> string" where
  "instruction withPrevious =
     ''ACTIVATE IDENTITY LOCK: '' @ newline @
     ''      1. Image 1 is the CURRENT real-time webcam frame (Source).'' @ newline @
     ''      2. Image 2 is the TARGET persona identity (Identity).'' @ newline @
     ''      '' @
       (if withPrevious
        then ''3. Image 3 is the PREVIOUS successful swap (Consistency Reference).''
        else []) @ newline @
     ''      '' @ newline @
     ''      TASK: Replace ONLY the face in Image 1 with the features of Image 2. '' @ newline @
     ''      STRICT CONSTRAINTS:'' @ newline @
     ''      - DO NOT change the background, hair, body, or clothing from Image 1.'' @ newline @
     ''      - DO NOT change the lighting or head orientation from Image 1.'' @ newline @
     ''      - ONLY morph the internal facial features (eyes, nose, mouth) to match Image 2.'' @
       newline @
     ''      '' @
       (if withPrevious
        then ''- Ensure the resulting face looks exactly like the face in Image 3 to maintain temporal consistency.''
        else []) @ newline @
     ''      - Output ONLY the modified Image 1.''"

definition swap_parts :: "string \<Rightarrow> string \<Rightarrow> string option \<Rightarrow> part list" where
  "swap_parts sourceBase64 targetBase64 previousResultBase64 =
     [InlineData (clean sourceBase64) ''image/jpeg'',
      InlineData (clean targetBase64) ''image/jpeg''] @
     (if truthy (cleanPrevious previousResultBase64)
      then [InlineData (cleanPrevious previousResultBase64) ''image/jpeg'']
      else []) @
     [TextPart (instruction (truthy (cleanPrevious previousResultBase64)))]"

definition is_text :: "part \<Rightarrow> bool" where
  "is_text p = (case p of TextPart t \<Rightarrow> True | InlineData d m \<Rightarrow> False)"

text \<open>
  The answer of \<^verbatim>\<open>generateContent\<close> to a swap request: the call throws, or the
  response has no usable candidate (a missing \<^verbatim>\<open>candidates\<close> or \<^verbatim>\<open>parts\<close> falls
  through to \<^verbatim>\<open>return null\<close>, a missing first candidate or content throws inside the
  \<^verbatim>\<open>try\<close>), or the first candidate has a list of parts, each with or without
  \<^verbatim>\<open>inlineData\<close>. The template literal prints a missing \<^verbatim>\<open>data\<close> as
  \<^verbatim>\<open>undefined\<close>.
\<close>

datatype response_part = Inline "string option" | NoInline

datatype swap_response = SwapThrows | NoCandidate | Candidate "response_part list"

fun first_inline :: "response_part list \<Rightarrow> string option" where
  "first_inline [] = None"
| "first_inline (Inline d # ps) =
     Some (''data:image/png;base64,'' @ (case d of None \<Rightarrow> ''undefined'' | Some x \<Rightarrow> x))"
| "first_inline (NoInline # ps) = first_inline ps"

definition performFaceSwap :: "swap_response \<Rightarrow> string option" where
  "performFaceSwap r =
     (case r of SwapThrows \<Rightarrow> None | NoCandidate \<Rightarrow> None | Candidate ps \<Rightarrow> first_inline ps)"

section \<open>The image codec (components/CameraFeed.tsx, urlToBase64)\<close>

text \<open>
  What happens to the \<^verbatim>\<open>Image\<close> element the helper creates: \<^verbatim>\<open>onerror\<close> fires, or
  \<^verbatim>\<open>onload\<close> fires and the canvas gives a 2D context and the JPEG data URL of
  \<^verbatim>\<open>canvas.toDataURL\<close>, or gives no context.
\<close>

datatype image_load = ImageError | ImageLoaded "string option"

definition urlToBase64 :: "image_load \<Rightarrow> string \<Rightarrow> string" where
  "urlToBase64 img url =
     (if startsWith url ''data:'' then url
      else (case img of
              ImageError \<Rightarrow> url
            | ImageLoaded None \<Rightarrow> url
            | ImageLoaded (Some dataUrl) \<Rightarrow> dataUrl))"

section \<open>The camera feed component (components/CameraFeed.tsx)\<close>

text \<open>
  A \<open>render\<close> holds the values one render of the component sees; the closures created
  in that render (\<^verbatim>\<open>processFrame\<close>, the effect bodies) capture exactly these values,
  and the dependency arrays of the effects are compared on them.
\<close>

record render =
  r_status :: CameraStatus
  r_activeIdentityUrl :: "string option"
  r_swappedFrame :: "string option"
  r_isProcessing :: bool
  r_identityBase64 :: "string option"

record swap_call =
  sourceBase64 :: string
  targetBase64 :: string
  previousResultBase64 :: "string option"

text \<open>
  The component: its two props that matter, its four state hooks (holding the value
  most recently set), and the run-time around it: the values of the last committed
  render (\<open>None\<close> before the mount), the closure of the live \<^verbatim>\<open>setInterval\<close> timer,
  the \<^verbatim>\<open>performFaceSwap\<close> calls, \<^verbatim>\<open>urlToBase64\<close> promises and \<^verbatim>\<open>getUserMedia\<close>
  promises that are pending. Stopping the tracks of a stream acts on the device only
  and is not modelled; \<^verbatim>\<open>isFaceDetected\<close> only styles the output.
\<close>

record CameraFeed =
  status :: CameraStatus
  activeIdentityUrl :: "string option"
  stream :: "nat option"
  swappedFrame :: "string option"
  isProcessing :: bool
  identityBase64 :: "string option"
  committed :: "render option"
  interval :: "render option"
  swaps :: "swap_call list"
  conversions :: "string list"
  acquisitions :: nat

definition feed_initial :: "CameraStatus \<Rightarrow> string option \<Rightarrow> CameraFeed" where
  "feed_initial st url =
     \<lparr>status = st, activeIdentityUrl = url, stream = None, swappedFrame = None,
      isProcessing = False, identityBase64 = None, committed = None, interval = None,
      swaps = [], conversions = [], acquisitions = 0\<rparr>"

definition current_render :: "CameraFeed \<Rightarrow> render" where
  "current_render s =
     \<lparr>r_status = status s, r_activeIdentityUrl = activeIdentityUrl s,
      r_swappedFrame = swappedFrame s, r_isProcessing = isProcessing s,
      r_identityBase64 = identityBase64 s\<rparr>"

text \<open>The \<^verbatim>\<open>video\<close> element is rendered while the status is not \<^verbatim>\<open>INACTIVE\<close>, the
  hidden \<^verbatim>\<open>canvas\<close> always.\<close>

definition videoRef_current :: "CameraFeed \<Rightarrow> bool" where
  "videoRef_current s = (status s \<noteq> INACTIVE)"

definition canvasRef_current :: "CameraFeed \<Rightarrow> bool" where
  "canvasRef_current s = True"

text \<open>
  Drawing the video frame on the canvas is the environment: it yields the JPEG data URL
  of the frame, or the canvas has no 2D context, or a canvas call throws (caught by the
  \<^verbatim>\<open>catch\<close>).
\<close>

datatype capture = Captured string | NoContext | CaptureThrows

text \<open>
  \<^verbatim>\<open>processFrame\<close> up to its \<^verbatim>\<open>await\<close>, for the closure \<open>c\<close> it was created in. Without
  a context or on a throw the \<^verbatim>\<open>finally\<close> block runs in the same call, so the last
  value set for \<^verbatim>\<open>isProcessing\<close> is \<^verbatim>\<open>false\<close>.
\<close>

definition processFrame :: "capture \<Rightarrow> render \<Rightarrow> CameraFeed \<Rightarrow> CameraFeed" where
  "processFrame env c s =
     (if r_status c \<noteq> SWAPPING \<or> \<not> truthy (r_identityBase64 c) \<or> r_isProcessing c then s
      else if \<not> videoRef_current s \<or> \<not> canvasRef_current s then s
      else (case r_identityBase64 c of
              None \<Rightarrow> s
            | Some target \<Rightarrow>
                (case env of
                   Captured source \<Rightarrow>
                     s\<lparr>isProcessing := True,
                       swaps := swaps s @
                         [\<lparr>sourceBase64 = source, targetBase64 = target,
                           previousResultBase64 =
                             (if truthy (r_swappedFrame c) then r_swappedFrame c else None)\<rparr>]\<rparr>
                 | NoContext \<Rightarrow> s\<lparr>isProcessing := False\<rparr>
                 | CaptureThrows \<Rightarrow> s\<lparr>isProcessing := False\<rparr>)))"

text \<open>The rest of \<^verbatim>\<open>processFrame\<close>, when the \<open>k\<close>-th pending call returns \<open>result\<close>.\<close>

definition processFrame_resume :: "nat \<Rightarrow> string option \<Rightarrow> CameraFeed \<Rightarrow> CameraFeed" where
  "processFrame_resume k result s =
     (if truthy result then s\<lparr>swappedFrame := result\<rparr> else s)
       \<lparr>isProcessing := False, swaps := drop_at k (swaps s)\<rparr>"

text \<open>The three effects, in the order of the source, each for the render \<open>c\<close> it runs in.\<close>

definition effect_identity :: "render \<Rightarrow> CameraFeed \<Rightarrow> CameraFeed" where
  "effect_identity c s =
     (case r_activeIdentityUrl c of
        None \<Rightarrow> s\<lparr>identityBase64 := None, swappedFrame := None\<rparr>
      | Some url \<Rightarrow>
          (if url = [] then s\<lparr>identityBase64 := None, swappedFrame := None\<rparr>
           else s\<lparr>conversions := conversions s @ [url]\<rparr>))"

definition effect_camera :: "render \<Rightarrow> CameraFeed \<Rightarrow> CameraFeed" where
  "effect_camera c s =
     (if r_status c \<noteq> INACTIVE then s\<lparr>acquisitions := Suc (acquisitions s)\<rparr>
      else s\<lparr>stream := None, swappedFrame := None\<rparr>)"

definition effect_loop :: "capture \<Rightarrow> render \<Rightarrow> CameraFeed \<Rightarrow> CameraFeed" where
  "effect_loop env c s =
     (if r_status c = SWAPPING \<and> truthy (r_identityBase64 c)
      then (processFrame env c s)\<lparr>interval := Some c\<rparr>
      else s\<lparr>swappedFrame := None\<rparr>)"

text \<open>
  One commit of a render: the effects whose dependencies differ from the last committed
  render run (all of them on the mount), cleanups before bodies. The only cleanup with an
  effect on the model is \<^verbatim>\<open>clearInterval\<close>. State set by the effects is seen by the
  next render, not by this one.
\<close>

definition deps_identity :: "render \<Rightarrow> string option" where
  "deps_identity c = r_activeIdentityUrl c"

definition deps_camera :: "render \<Rightarrow> CameraStatus" where
  "deps_camera c = r_status c"

definition deps_loop :: "render \<Rightarrow> CameraStatus \<times> string option \<times> string option \<times> bool" where
  "deps_loop c = (r_status c, r_identityBase64 c, r_swappedFrame c, r_isProcessing c)"

definition changed :: "render option \<Rightarrow> render \<Rightarrow> (render \<Rightarrow> 'a) \<Rightarrow> bool" where
  "changed prev c deps = (case prev of None \<Rightarrow> True | Some p \<Rightarrow> deps p \<noteq> deps c)"

definition run_identity :: "CameraFeed \<Rightarrow> bool" where
  "run_identity s = changed (committed s) (current_render s) deps_identity"

definition run_camera :: "CameraFeed \<Rightarrow> bool" where
  "run_camera s = changed (committed s) (current_render s) deps_camera"

definition run_loop :: "CameraFeed \<Rightarrow> bool" where
  "run_loop s = changed (committed s) (current_render s) deps_loop"

definition commit :: "capture \<Rightarrow> CameraFeed \<Rightarrow> CameraFeed" where
  "commit env s =
     (let c = current_render s;
          s0 = (if run_loop s then s\<lparr>interval := None\<rparr> else s);
          s1 = (if run_identity s then effect_identity c s0 else s0);
          s2 = (if run_camera s then effect_camera c s1 else s1);
          s3 = (if run_loop s then effect_loop env c s2 else s2)
      in s3\<lparr>committed := Some c\<rparr>)"

definition quiescent :: "CameraFeed \<Rightarrow> bool" where
  "quiescent s = (committed s = Some (current_render s))"

text \<open>
  React renders again while state set during a commit differs from what was rendered.
  The loop is run with fuel; \<open>settle_quiescent\<close> below shows that two commits always
  reach a state in which nothing is left to render.
\<close>

fun rerender :: "nat \<Rightarrow> capture \<Rightarrow> CameraFeed \<Rightarrow> CameraFeed" where
  "rerender 0 env s = s"
| "rerender (Suc n) env s = (if quiescent s then s else rerender n env (commit env s))"

definition settle :: "capture \<Rightarrow> CameraFeed \<Rightarrow> CameraFeed" where
  "settle env s = rerender 2 env s"

text \<open>
  The events of the component: the parent renders it with new props, the timer fires,
  a pending swap call, image conversion or camera acquisition settles. JavaScript runs
  each callback to completion, and the state set in one callback is applied in one
  render. The model takes the renders and effects an event causes as part of the step
  of that event: no timer and no promise fires between a state update and the commit
  that follows it.
\<close>

datatype FeedEvent =
    Props CameraStatus "string option"
  | Tick
  | SwapSettled nat swap_response
  | UrlSettled nat image_load
  | CameraSettled "nat option"

fun feed_handle :: "capture \<Rightarrow> FeedEvent \<Rightarrow> CameraFeed \<Rightarrow> CameraFeed" where
  "feed_handle env (Props st url) s = s\<lparr>status := st, activeIdentityUrl := url\<rparr>"
| "feed_handle env Tick s =
     (case interval s of None \<Rightarrow> s | Some c \<Rightarrow> processFrame env c s)"
| "feed_handle env (SwapSettled k r) s =
     (if k < length (swaps s) then processFrame_resume k (performFaceSwap r) s else s)"
| "feed_handle env (UrlSettled k img) s =
     (if k < length (conversions s)
      then s\<lparr>identityBase64 := Some (urlToBase64 img (conversions s ! k)),
             conversions := drop_at k (conversions s)\<rparr>
      else s)"
| "feed_handle env (CameraSettled h) s =
     (if 0 < acquisitions s
      then (case h of
              None \<Rightarrow> s\<lparr>acquisitions := acquisitions s - 1\<rparr>
            | Some m \<Rightarrow> s\<lparr>stream := Some m, acquisitions := acquisitions s - 1\<rparr>)
      else s)"

definition feed_step :: "capture \<times> FeedEvent \<Rightarrow> CameraFeed \<Rightarrow> CameraFeed" where
  "feed_step ev s = settle (fst ev) (feed_handle (fst ev) (snd ev) s)"

definition feed_mount :: "capture \<Rightarrow> CameraStatus \<Rightarrow> string option \<Rightarrow> CameraFeed" where
  "feed_mount env st url = settle env (feed_initial st url)"

definition feed_run :: "CameraFeed \<Rightarrow> (capture \<times> FeedEvent) list \<Rightarrow> CameraFeed" where
  "feed_run s evs = foldl (\<lambda>t ev. feed_step ev t) s evs"

text \<open>The states of the orchestrator as the specification names them, read off the
  component: swapping needs the status and a resolved target, the anchor is the
  swapped frame.\<close>

datatype arm = Idle | Armed | Synced

definition swapping :: "CameraFeed \<Rightarrow> bool" where
  "swapping s = (status s = SWAPPING \<and> truthy (identityBase64 s))"

definition arm_state :: "CameraFeed \<Rightarrow> arm" where
  "arm_state s =
     (if swapping s then (if truthy (swappedFrame s) then Synced else Armed) else Idle)"

definition anchor :: "CameraFeed \<Rightarrow> string option" where
  "anchor s = (if truthy (swappedFrame s) then swappedFrame s else None)"

section \<open>The application with its camera feed\<close>

text \<open>
  \<^verbatim>\<open>App\<close> renders one \<^verbatim>\<open>CameraFeed\<close> and passes \<^verbatim>\<open>cameraStatus\<close> and the URL of the
  active identity down; nothing flows back up. Props reach the feed only through a
  render of \<^verbatim>\<open>App\<close>, so a \<open>Props\<close> event is no asynchronous event of the system.
\<close>

record System =
  app :: App
  feed :: CameraFeed

datatype SysEvent = User AppEvent | Async FeedEvent

definition sys_init :: "capture \<Rightarrow> System" where
  "sys_init env =
     \<lparr>app = app_init,
      feed = feed_mount env (cameraStatus app_init) (app_activeIdentityUrl app_init)\<rparr>"

fun sys_step :: "capture \<times> SysEvent \<Rightarrow> System \<Rightarrow> System" where
  "sys_step (env, User e) s =
     \<lparr>app = app_step e (app s),
      feed = feed_step
        (env, Props (cameraStatus (app_step e (app s)))
                (app_activeIdentityUrl (app_step e (app s))))
        (feed s)\<rparr>"
| "sys_step (env, Async e) s =
     (case e of Props st url \<Rightarrow> s | _ \<Rightarrow> s\<lparr>feed := feed_step (env, e) (feed s)\<rparr>)"

definition sys_run :: "capture \<Rightarrow> (capture \<times> SysEvent) list \<Rightarrow> System" where
  "sys_run env evs = foldl (\<lambda>t ev. sys_step ev t) (sys_init env) evs"

section \<open>Invariants\<close>

definition app_inv :: "App \<Rightarrow> bool" where
  "app_inv s =
     ((case activeIdentityId s of None \<Rightarrow> True | Some x \<Rightarrow> has_card s x) \<and>
      cameraStatus s \<noteq> LOADING \<and>
      Error \<notin> set (map embeddingStatus (identities s)))"


text \<open>
  For the proofs: when the guards of \<^verbatim>\<open>processFrame\<close> let a call through, and the
  request it then sends. Between two events the timer, if it is set, holds a closure
  with the values of the current render, no timer and no anchor exist while the
  component is not swapping, and a swap call is pending exactly while
  \<^verbatim>\<open>isProcessing\<close> is set.
\<close>

definition passes :: "render \<Rightarrow> CameraFeed \<Rightarrow> bool" where
  "passes c s =
     (r_status c = SWAPPING \<and> truthy (r_identityBase64 c) \<and> \<not> r_isProcessing c \<and>
      status s \<noteq> INACTIVE)"

definition request :: "capture \<Rightarrow> render \<Rightarrow> swap_call list" where
  "request env c =
     (case env of
        Captured source \<Rightarrow>
          [\<lparr>sourceBase64 = source, targetBase64 = the (r_identityBase64 c),
            previousResultBase64 =
              (if truthy (r_swappedFrame c) then r_swappedFrame c else None)\<rparr>]
      | NoContext \<Rightarrow> []
      | CaptureThrows \<Rightarrow> [])"

definition loop_ok :: "CameraFeed \<Rightarrow> bool" where
  "loop_ok s =
     (case interval s of
        None \<Rightarrow> \<not> swapping s \<and> swappedFrame s = None
      | Some c \<Rightarrow> swapping s \<and> deps_loop c = deps_loop (current_render s))"

definition single_flight :: "CameraFeed \<Rightarrow> bool" where
  "single_flight s = (length (swaps s) = (if isProcessing s then 1 else 0))"

definition pre_inv :: "CameraFeed \<Rightarrow> bool" where
  "pre_inv s = ((run_loop s \<or> loop_ok s) \<and> single_flight s)"

definition feed_inv :: "CameraFeed \<Rightarrow> bool" where
  "feed_inv s = (quiescent s \<and> loop_ok s \<and> single_flight s)"

definition sys_inv :: "System \<Rightarrow> bool" where
  "sys_inv S =
     (feed_inv (feed S) \<and> app_inv (app S) \<and> status (feed S) = cameraStatus (app S))"


section \<open>Properties of the application component\<close>

lemma app_inv_init: "app_inv app_init"
  by (simp add: app_inv_def app_init_def INITIAL_IDENTITIES_def)

lemma app_inv_step: "app_inv s \<Longrightarrow> app_inv (app_step e s)"
  by (cases e)
     (auto simp: app_inv_def toggleCamera_def persona_click_def toggleSwap_def
        handleIdentitySelect_def deleteIdentity_def handleFileUpload_def reader_onload_def
        reader_onload_resume_def has_card_def
        split: option.splits if_splits)

lemma app_inv_run: "app_inv (app_run es)"
  unfolding app_run_def
  by (induction es rule: rev_induct) (simp_all add: app_inv_init app_inv_step)

lemma active_has_card: "activeIdentityId (app_run es) = Some x \<Longrightarrow> has_card (app_run es) x"
  using app_inv_run [of es] by (simp add: app_inv_def)

lemma filter_absent:
  "i \<notin> set (map identity_id xs) \<Longrightarrow> filter (\<lambda>x. identity_id x \<noteq> i) xs = xs"
  by (induction xs) auto

lemma filter_distinct_length:
  "distinct (map identity_id xs) \<Longrightarrow> i \<in> set (map identity_id xs) \<Longrightarrow>
   Suc (length (filter (\<lambda>x. identity_id x \<noteq> i) xs)) = length xs"
proof (induction xs)
  case Nil
  then show ?case by simp
next
  case (Cons a xs)
  show ?case
  proof (cases "identity_id a = i")
    case True
    with Cons.prems have "i \<notin> set (map identity_id xs)" by auto
    then show ?thesis using True by (simp add: filter_absent)
  next
    case False
    with Cons show ?thesis by auto
  qed
qed

lemma find_has_card:
  "has_card s i \<Longrightarrow> find (\<lambda>x. identity_id x = i) (identities s) \<noteq> None"
  by (auto simp: has_card_def find_None_iff)

lemma mark_ready_ids:
  "map identity_id (map (\<lambda>idty. if identity_id idty = n
       then idty\<lparr>embeddingStatus := Ready\<rparr> else idty) xs) = map identity_id xs"
  by (induction xs) auto

lemma mark_ready_status:
  assumes "x \<in> set (map (\<lambda>idty. if identity_id idty = n
       then idty\<lparr>embeddingStatus := Ready\<rparr> else idty) xs)"
    and "identity_id x = n"
  shows "embeddingStatus x = Ready"
proof -
  from assms(1) obtain y where
    y: "x = (if identity_id y = n then y\<lparr>embeddingStatus := Ready\<rparr> else y)"
    by (auto simp only: set_map image_iff)
  show ?thesis
  proof (cases "identity_id y = n")
    case True
    with y have "x = y\<lparr>embeddingStatus := Ready\<rparr>" by (simp only: if_True simp_thms)
    then show ?thesis by simp
  next
    case False
    with y have "x = y" by (simp only: if_False simp_thms)
    with False assms(2) show ?thesis by simp
  qed
qed

text \<open>
  C10. \<^verbatim>\<open>deleteIdentity\<close> keeps, in their order, exactly the identities whose id is not
  the given one (one entry less when the ids of the list are distinct and the id is
  present); afterwards the given id is neither in the list nor the active selection: it
  was cleared if it was active, and is unchanged otherwise. In every state the
  application reaches, deleting an id that has no entry changes nothing, and the active
  id is the id of an entry of the list, so it is never the id of a removed identity.
\<close>

theorem deleteIdentity_clears_selection:
  "set (identities (deleteIdentity i s)) = {x \<in> set (identities s). identity_id x \<noteq> i} \<and>
   subseq (identities (deleteIdentity i s)) (identities s) \<and>
   (distinct (map identity_id (identities s)) \<and> has_card s i \<longrightarrow>
      Suc (length (identities (deleteIdentity i s))) = length (identities s)) \<and>
   \<not> has_card (deleteIdentity i s) i \<and>
   activeIdentityId (deleteIdentity i s) \<noteq> Some i \<and>
   (activeIdentityId s = Some i \<longrightarrow> activeIdentityId (deleteIdentity i s) = None) \<and>
   (activeIdentityId s \<noteq> Some i \<longrightarrow>
      activeIdentityId (deleteIdentity i s) = activeIdentityId s) \<and>
   (\<not> has_card (app_run es) i \<longrightarrow> deleteIdentity i (app_run es) = app_run es) \<and>
   (\<forall>x. activeIdentityId (app_run es) = Some x \<longrightarrow> has_card (app_run es) x)"
proof -
  have absent: "deleteIdentity i (app_run es) = app_run es" if "\<not> has_card (app_run es) i"
  proof -
    from that have "activeIdentityId (app_run es) \<noteq> Some i"
      using active_has_card by blast
    moreover from that
    have "filter (\<lambda>x. identity_id x \<noteq> i) (identities (app_run es)) = identities (app_run es)"
      by (simp add: filter_absent has_card_def)
    ultimately show ?thesis by (simp add: deleteIdentity_def)
  qed
  have len: "Suc (length (identities (deleteIdentity i s))) = length (identities s)"
    if "distinct (map identity_id (identities s))" "has_card s i"
    using that filter_distinct_length [of "identities s" i]
    by (simp add: deleteIdentity_def has_card_def)
  show ?thesis
    using absent len active_has_card
    by (auto simp: deleteIdentity_def has_card_def)
qed

theorem deleteIdentity_clears_selection_witness:
  "activeIdentityId (app_run [CardClick ''1'']) = Some ''1'' \<and>
   has_card (app_run [CardClick ''1'']) ''1'' \<and>
   distinct (map identity_id (identities (app_run [CardClick ''1'']))) \<and>
   activeIdentityId (deleteIdentity ''1'' (app_run [CardClick ''1''])) = None \<and>
   length (identities (deleteIdentity ''1'' (app_run [CardClick ''1'']))) = 1 \<and>
   activeIdentityId (app_run [CardClick ''1'']) \<noteq> Some ''2'' \<and>
   activeIdentityId (deleteIdentity ''2'' (app_run [CardClick ''1''])) = Some ''1'' \<and>
   \<not> has_card (app_run [CardClick ''1'']) ''7'' \<and>
   deleteIdentity ''7'' (app_run [CardClick ''1'']) = app_run [CardClick ''1'']"
proof -
  have run: "app_run [CardClick ''1''] =
      app_init\<lparr>activeIdentityId := Some ''1''\<rparr>"
    by (simp add: app_run_def app_init_def INITIAL_IDENTITIES_def has_card_def
        handleIdentitySelect_def)
  have h: "activeIdentityId (app_run [CardClick ''1'']) = Some ''1'' \<and>
      has_card (app_run [CardClick ''1'']) ''1'' \<and>
      distinct (map identity_id (identities (app_run [CardClick ''1'']))) \<and>
      activeIdentityId (app_run [CardClick ''1'']) \<noteq> Some ''2'' \<and>
      \<not> has_card (app_run [CardClick ''1'']) ''7''"
    by (simp add: run app_init_def INITIAL_IDENTITIES_def has_card_def)
  show ?thesis
    using h
      deleteIdentity_clears_selection
        [of "''1''" "app_run [CardClick ''1'']" "[CardClick ''1'']"]
      deleteIdentity_clears_selection
        [of "''2''" "app_run [CardClick ''1'']" "[CardClick ''1'']"]
      deleteIdentity_clears_selection
        [of "''7''" "app_run [CardClick ''1'']" "[CardClick ''1'']"]
    by (simp add: run app_init_def INITIAL_IDENTITIES_def)
qed

text \<open>
  C4. Clicking the persona button while the session is \<^verbatim>\<open>INACTIVE\<close> or while no
  identity is selected returns the state unchanged (the button is disabled; and
  \<^verbatim>\<open>toggleSwap\<close> itself returns at once when \<^verbatim>\<open>INACTIVE\<close>). In every state the
  application reaches, an event that takes the status to \<^verbatim>\<open>SWAPPING\<close> from another
  status is the persona click, the status before it is \<^verbatim>\<open>ACTIVE\<close>, and the active
  identity is an entry of the list.
\<close>

theorem persona_toggle_gated:
  "(cameraStatus s = INACTIVE \<or> activeIdentityId s = None \<longrightarrow> app_step PersonaClick s = s) \<and>
   (cameraStatus s = INACTIVE \<longrightarrow> toggleSwap s = s) \<and>
   (cameraStatus (app_run es) \<noteq> SWAPPING \<and>
    cameraStatus (app_step e (app_run es)) = SWAPPING \<longrightarrow>
      e = PersonaClick \<and> cameraStatus (app_run es) = ACTIVE \<and>
      activeIdentity (app_run es) \<noteq> None)"
proof -
  have noop: "app_step PersonaClick s = s"
    if "cameraStatus s = INACTIVE \<or> activeIdentityId s = None"
    using that by (auto simp: persona_click_def persona_disabled_def truthy_def)
  have raw: "toggleSwap s = s" if "cameraStatus s = INACTIVE"
    using that by (simp add: toggleSwap_def)
  have enter: "e = PersonaClick \<and> cameraStatus (app_run es) = ACTIVE \<and>
      activeIdentity (app_run es) \<noteq> None"
    if a: "cameraStatus (app_run es) \<noteq> SWAPPING"
      and b: "cameraStatus (app_step e (app_run es)) = SWAPPING"
  proof -
    let ?s = "app_run es"
    have inv: "app_inv ?s" by (rule app_inv_run)
    from a b have e: "e = PersonaClick"
      by (cases e)
         (auto simp: toggleCamera_def handleIdentitySelect_def deleteIdentity_def
            handleFileUpload_def reader_onload_def reader_onload_resume_def
            split: option.splits if_splits)
    with a b have en: "\<not> persona_disabled ?s"
      by (auto simp: persona_click_def)
    with a b e inv have act: "cameraStatus ?s = ACTIVE"
      by (cases "cameraStatus ?s") (auto simp: persona_disabled_def app_inv_def)
    from en obtain i where i: "activeIdentityId ?s = Some i"
      by (cases "activeIdentityId ?s") (auto simp: persona_disabled_def truthy_def)
    with inv have "has_card ?s i" by (simp add: app_inv_def)
    then have "activeIdentity ?s \<noteq> None"
      using i find_has_card [of ?s i] by (simp add: activeIdentity_def)
    with e act show ?thesis by simp
  qed
  from noop raw enter show ?thesis by blast
qed

theorem persona_toggle_gated_witness:
  "cameraStatus app_init = INACTIVE \<and> app_step PersonaClick app_init = app_init \<and>
   toggleSwap app_init = app_init \<and>
   activeIdentityId (app_run [PowerClick]) = None \<and>
   app_step PersonaClick (app_run [PowerClick]) = app_run [PowerClick] \<and>
   cameraStatus (app_run [PowerClick, CardClick ''2'']) = ACTIVE \<and>
   cameraStatus (app_step PersonaClick (app_run [PowerClick, CardClick ''2''])) = SWAPPING \<and>
   activeIdentity (app_run [PowerClick, CardClick ''2'']) \<noteq> None"
proof -
  have r1: "app_run [PowerClick] = app_init\<lparr>cameraStatus := ACTIVE\<rparr>"
    by (simp add: app_run_def app_init_def toggleCamera_def)
  have r2: "app_run [PowerClick, CardClick ''2''] =
      app_init\<lparr>activeIdentityId := Some ''2'', cameraStatus := ACTIVE\<rparr>"
    by (simp add: app_run_def app_init_def toggleCamera_def has_card_def
        INITIAL_IDENTITIES_def handleIdentitySelect_def)
  have h0: "cameraStatus app_init = INACTIVE" by (simp add: app_init_def)
  have h1: "activeIdentityId (app_run [PowerClick]) = None" by (simp add: r1 app_init_def)
  have h2: "cameraStatus (app_run [PowerClick, CardClick ''2'']) \<noteq> SWAPPING \<and>
      cameraStatus (app_step PersonaClick (app_run [PowerClick, CardClick ''2''])) = SWAPPING"
    by (simp add: r2 app_init_def persona_click_def persona_disabled_def truthy_def
        toggleSwap_def)
  show ?thesis
    using h0 h1 h2 persona_toggle_gated [of app_init "[]" PersonaClick]
      persona_toggle_gated
        [of "app_run [PowerClick]" "[PowerClick, CardClick ''2'']" PersonaClick]
    by simp
qed

text \<open>
  C5, as the code has it. When the refinement of a newly added identity fails,
  \<^verbatim>\<open>refineIdentity\<close> returns \<^verbatim>\<open>null\<close> and the upload continues exactly as after a
  success: the identity with the new id becomes \<^verbatim>\<open>ready\<close>, the list keeps all its
  entries, each of them can be selected by a click on its card, and the session status
  and the selection are untouched. No state the application reaches holds an identity
  with status \<^verbatim>\<open>error\<close>.
\<close>

theorem refinement_failure_marks_ready:
  assumes "k < length (refining s)"
  shows "refineIdentity RefineThrows = None \<and>
    app_step (RefineSettled k RefineThrows) s = app_step (RefineSettled k r) s \<and>
    map identity_id (identities (app_step (RefineSettled k RefineThrows) s)) =
      map identity_id (identities s) \<and>
    (\<forall>x \<in> set (identities (app_step (RefineSettled k RefineThrows) s)).
       (identity_id x = refining s ! k \<longrightarrow> embeddingStatus x = Ready) \<and>
       (activeIdentityId s \<noteq> Some (identity_id x) \<longrightarrow>
          activeIdentityId (app_step (CardClick (identity_id x))
            (app_step (RefineSettled k RefineThrows) s)) = Some (identity_id x))) \<and>
    cameraStatus (app_step (RefineSettled k RefineThrows) s) = cameraStatus s \<and>
    activeIdentityId (app_step (RefineSettled k RefineThrows) s) = activeIdentityId s \<and>
    Error \<notin> set (map embeddingStatus (identities (app_run es)))"
proof -
  let ?t = "app_step (RefineSettled k RefineThrows) s"
  have same: "?t = app_step (RefineSettled k r) s"
    using assms by (simp add: reader_onload_resume_def)
  have ids: "map identity_id (identities ?t) = map identity_id (identities s)"
    using assms by (simp add: reader_onload_resume_def mark_ready_ids)
  have act: "activeIdentityId ?t = activeIdentityId s"
    and cam: "cameraStatus ?t = cameraStatus s"
    using assms by (simp_all add: reader_onload_resume_def)
  have rdy: "embeddingStatus x = Ready"
    if "x \<in> set (identities ?t)" "identity_id x = refining s ! k" for x
  proof -
    from that(1) assms
    have "x \<in> set (map (\<lambda>idty. if identity_id idty = refining s ! k
        then idty\<lparr>embeddingStatus := Ready\<rparr> else idty) (identities s))"
      by (simp add: reader_onload_resume_def)
    then show ?thesis using that(2) by (rule mark_ready_status)
  qed
  have sel: "activeIdentityId (app_step (CardClick (identity_id x)) ?t) = Some (identity_id x)"
    if "x \<in> set (identities ?t)" "activeIdentityId s \<noteq> Some (identity_id x)" for x
  proof -
    from that(1) have "has_card ?t (identity_id x)" by (auto simp: has_card_def)
    with that(2) act show ?thesis by (auto simp: handleIdentitySelect_def)
  qed
  have noerr: "Error \<notin> set (map embeddingStatus (identities (app_run es)))"
    using app_inv_run [of es] by (simp add: app_inv_def)
  have nul: "refineIdentity RefineThrows = None" by (simp add: refineIdentity_def)
  show ?thesis
    apply (intro conjI ballI impI)
           apply (rule nul)
          apply (rule same)
         apply (rule ids)
        apply (erule (1) rdy)
       apply (erule (1) sel)
      apply (rule cam)
     apply (rule act)
    apply (rule noerr)
    done
qed

theorem refinement_failure_marks_ready_witness:
  "refining (app_run [FileChosen (Some ''face.png''),
       ReaderLoaded 0 ''1700000000000'' ''data:image/png;base64,AAAA'']) = [''1700000000000''] \<and>
   map embeddingStatus (identities (app_run [FileChosen (Some ''face.png''),
       ReaderLoaded 0 ''1700000000000'' ''data:image/png;base64,AAAA'']))
     = [Ready, Ready, Processing] \<and>
   map identity_id (identities (app_step (RefineSettled 0 RefineThrows)
     (app_run [FileChosen (Some ''face.png''),
       ReaderLoaded 0 ''1700000000000'' ''data:image/png;base64,AAAA''])))
     = [''1'', ''2'', ''1700000000000''] \<and>
   map embeddingStatus (identities (app_step (RefineSettled 0 RefineThrows)
     (app_run [FileChosen (Some ''face.png''),
       ReaderLoaded 0 ''1700000000000'' ''data:image/png;base64,AAAA''])))
     = [Ready, Ready, Ready] \<and>
   activeIdentityId (app_run [FileChosen (Some ''face.png''),
       ReaderLoaded 0 ''1700000000000'' ''data:image/png;base64,AAAA'']) = None \<and>
   activeIdentityId (app_step (CardClick ''1700000000000'')
     (app_step (RefineSettled 0 RefineThrows)
       (app_run [FileChosen (Some ''face.png''),
         ReaderLoaded 0 ''1700000000000'' ''data:image/png;base64,AAAA''])))
     = Some ''1700000000000'' \<and>
   cameraStatus (app_step (RefineSettled 0 RefineThrows)
     (app_run [FileChosen (Some ''face.png''),
       ReaderLoaded 0 ''1700000000000'' ''data:image/png;base64,AAAA''])) = INACTIVE"
proof -
  let ?s = "app_run [FileChosen (Some ''face.png''),
       ReaderLoaded 0 ''1700000000000'' ''data:image/png;base64,AAAA'']"
  have r: "?s = app_init\<lparr>identities := INITIAL_IDENTITIES @
        [\<lparr>identity_id = ''1700000000000'', name = ''face'',
          imageUrl = ''data:image/png;base64,AAAA'', embeddingStatus = Processing\<rparr>],
       isUploading := True, reading := [], refining := [''1700000000000'']\<rparr>"
    by (simp add: app_run_def app_init_def handleFileUpload_def reader_onload_def drop_at_def)
  have h: "0 < length (refining ?s)" by (simp add: r)
  have a: "map identity_id (identities ?s) = [''1'', ''2'', ''1700000000000'']"
    and b: "map embeddingStatus (identities ?s) = [Ready, Ready, Processing]"
    and c: "refining ?s = [''1700000000000'']" and d: "cameraStatus ?s = INACTIVE"
    and e: "activeIdentityId ?s = None"
    by (simp_all add: r app_init_def INITIAL_IDENTITIES_def)
  have f: "map embeddingStatus (identities (app_step (RefineSettled 0 RefineThrows) ?s)) =
      [Ready, Ready, Ready]"
    by code_simp
  have g: "activeIdentityId (app_step (CardClick ''1700000000000'')
      (app_step (RefineSettled 0 RefineThrows) ?s)) = Some ''1700000000000''"
    by code_simp
  note t = refinement_failure_marks_ready [OF h, of RefineThrows "[]"]
  from t have "map identity_id (identities (app_step (RefineSettled 0 RefineThrows) ?s)) =
      map identity_id (identities ?s)"
    by (elim conjE)
  moreover from t
  have "cameraStatus (app_step (RefineSettled 0 RefineThrows) ?s) = cameraStatus ?s"
    by (elim conjE)
  ultimately show ?thesis using a b c d e f g by simp
qed

theorem refinement_failure_not_error:
  "map embeddingStatus (identities (app_run [FileChosen (Some ''face.png''),
       ReaderLoaded 0 ''1700000000000'' ''data:image/png;base64,AAAA'',
       RefineSettled 0 RefineThrows])) = [Ready, Ready, Ready] \<and>
   Error \<notin> set (map embeddingStatus (identities (app_run [FileChosen (Some ''face.png''),
       ReaderLoaded 0 ''1700000000000'' ''data:image/png;base64,AAAA'',
       RefineSettled 0 RefineThrows])))"
  by code_simp


section \<open>Rendering and effects of the camera feed\<close>

lemma not_truthy_None: "\<not> truthy None"
  by (simp add: truthy_def)

lemma processFrame_eq:
  "processFrame env c s =
     (if passes c s
      then s\<lparr>isProcessing := (request env c \<noteq> []), swaps := swaps s @ request env c\<rparr>
      else s)"
  by (cases "r_identityBase64 c"; cases env)
     (simp_all add: processFrame_def passes_def request_def truthy_def videoRef_current_def
        canvasRef_current_def)

lemmas commit_unfold = commit_def Let_def effect_identity_def effect_camera_def
  effect_loop_def processFrame_eq

lemma cr_simps:
  "r_status (current_render s) = status s"
  "r_activeIdentityUrl (current_render s) = activeIdentityUrl s"
  "r_identityBase64 (current_render s) = identityBase64 s"
  "r_swappedFrame (current_render s) = swappedFrame s"
  "r_isProcessing (current_render s) = isProcessing s"
  by (simp_all add: current_render_def)

lemma commit_status: "status (commit env s) = status s"
  by (simp add: commit_unfold passes_def split: option.split)

lemma commit_url: "activeIdentityUrl (commit env s) = activeIdentityUrl s"
  by (simp add: commit_unfold passes_def split: option.split)

lemma commit_committed: "committed (commit env s) = Some (current_render s)"
  by (simp add: commit_unfold)

lemma commit_identityBase64:
  "identityBase64 (commit env s) =
     (if run_identity s \<and> \<not> truthy (activeIdentityUrl s) then None else identityBase64 s)"
  by (simp add: commit_unfold passes_def cr_simps truthy_def split: option.split)

lemma commit_swappedFrame:
  "swappedFrame (commit env s) =
     (if run_identity s \<and> \<not> truthy (activeIdentityUrl s) \<or> run_camera s \<and> status s = INACTIVE \<or>
         run_loop s \<and> \<not> swapping s
      then None else swappedFrame s)"
  by (simp add: commit_unfold passes_def cr_simps truthy_def swapping_def split: option.split)

lemma commit_isProcessing:
  "isProcessing (commit env s) =
     (if run_loop s \<and> swapping s \<and> \<not> isProcessing s
      then request env (current_render s) \<noteq> [] else isProcessing s)"
  by (simp add: commit_unfold passes_def cr_simps truthy_def swapping_def split: option.split)

lemma commit_swaps:
  "swaps (commit env s) =
     (if run_loop s \<and> swapping s \<and> \<not> isProcessing s
      then swaps s @ request env (current_render s) else swaps s)"
  by (simp add: commit_unfold passes_def cr_simps truthy_def swapping_def split: option.split)

lemma commit_interval:
  "interval (commit env s) =
     (if run_loop s then (if swapping s then Some (current_render s) else None) else interval s)"
  by (simp add: commit_unfold passes_def cr_simps truthy_def swapping_def split: option.split)

lemma commit_stream:
  "stream (commit env s) = (if run_camera s \<and> status s = INACTIVE then None else stream s)"
  by (simp add: commit_unfold passes_def cr_simps truthy_def swapping_def split: option.split)

lemma commit_conversions:
  "conversions (commit env s) =
     (if run_identity s \<and> truthy (activeIdentityUrl s)
      then conversions s @ [the (activeIdentityUrl s)] else conversions s)"
  by (simp add: commit_unfold passes_def cr_simps truthy_def swapping_def split: option.split)

lemma commit_acquisitions:
  "acquisitions (commit env s) =
     (if run_camera s \<and> status s \<noteq> INACTIVE then Suc (acquisitions s) else acquisitions s)"
  by (simp add: commit_unfold passes_def cr_simps truthy_def swapping_def split: option.split)

lemma run_after_commit:
  "run_identity (commit env s) = False" "run_camera (commit env s) = False"
  "run_loop (commit env s) =
     (identityBase64 (commit env s) \<noteq> identityBase64 s \<or>
      swappedFrame (commit env s) \<noteq> swappedFrame s \<or>
      isProcessing (commit env s) \<noteq> isProcessing s)"
  by (auto simp: run_identity_def run_camera_def run_loop_def changed_def commit_committed
      deps_identity_def deps_camera_def deps_loop_def cr_simps commit_status commit_url)

lemma commit_then_busy:
  assumes "run_loop (commit env s)" "swapping (commit env s)"
  shows "isProcessing (commit env s)"
proof -
  from assms(2) have st: "status s = SWAPPING" and tr: "truthy (identityBase64 (commit env s))"
    by (simp_all add: swapping_def commit_status)
  have nP: "\<not> (run_identity s \<and> \<not> truthy (activeIdentityUrl s))"
    using tr by (auto simp: commit_identityBase64 not_truthy_None split: if_splits)
  then have idb: "identityBase64 (commit env s) = identityBase64 s"
    by (auto simp: commit_identityBase64)
  with st tr have sw: "swapping s" by (simp add: swapping_def)
  with nP st have "swappedFrame (commit env s) = swappedFrame s"
    by (auto simp: commit_swappedFrame)
  with assms(1) idb have ne: "isProcessing (commit env s) \<noteq> isProcessing s"
    by (simp add: run_after_commit)
  then show ?thesis
    by (auto simp: commit_isProcessing split: if_splits)
qed

lemma commit_then_cleared:
  assumes "run_loop (commit env s)" "\<not> swapping (commit env s)"
  shows "swappedFrame (commit env s) = None"
proof (rule ccontr)
  assume ne: "swappedFrame (commit env s) \<noteq> None"
  then have nc: "\<not> (run_identity s \<and> \<not> truthy (activeIdentityUrl s))"
      "\<not> (run_loop s \<and> \<not> swapping s)"
    and sw: "swappedFrame (commit env s) = swappedFrame s"
    by (auto simp: commit_swappedFrame split: if_splits)
  from nc(1) have idb: "identityBase64 (commit env s) = identityBase64 s"
    by (auto simp: commit_identityBase64)
  with assms(2) have "\<not> swapping s" by (simp add: swapping_def commit_status)
  with nc(2) have "\<not> run_loop s" by blast
  then have "isProcessing (commit env s) = isProcessing s"
    by (simp add: commit_isProcessing)
  with sw idb assms(1) show False by (simp add: run_after_commit)
qed

lemma quiescent_iff:
  "quiescent s = (\<not> run_identity s \<and> \<not> run_camera s \<and> \<not> run_loop s)"
  by (cases "committed s")
     (auto simp: quiescent_def run_identity_def run_camera_def run_loop_def changed_def
        deps_identity_def deps_camera_def deps_loop_def current_render_def)

lemma commit_commit_quiescent: "quiescent (commit env' (commit env s))"
proof -
  let ?t = "commit env s"
  have a: "identityBase64 (commit env' ?t) = identityBase64 ?t"
    by (simp add: commit_identityBase64 run_after_commit)
  have b: "swappedFrame (commit env' ?t) = swappedFrame ?t"
    using commit_then_cleared [of env s]
    by (auto simp: commit_swappedFrame run_after_commit(1,2))
  have c: "isProcessing (commit env' ?t) = isProcessing ?t"
    using commit_then_busy [of env s]
    by (auto simp: commit_isProcessing)
  show ?thesis
    unfolding quiescent_iff run_after_commit [of env' ?t] using a b c by simp
qed

lemma quiescent_commit:
  assumes "quiescent s"
  shows "commit env s = s"
proof -
  from assms have "commit env s = s\<lparr>committed := Some (current_render s)\<rparr>"
    by (simp add: quiescent_iff commit_def Let_def)
  also from assms have "\<dots> = s\<lparr>committed := committed s\<rparr>"
    by (simp add: quiescent_def)
  finally show ?thesis by simp
qed

lemma settle_cases:
  "settle env s = (if quiescent s then s else if quiescent (commit env s) then commit env s
     else commit env (commit env s))"
  by (simp add: settle_def numeral_2_eq_2)

lemma settle_commits: "settle env s = commit env (commit env s)"
  by (simp add: settle_cases quiescent_commit)

lemma settle_quiescent: "quiescent (settle env s)"
  by (simp add: settle_commits commit_commit_quiescent)

lemma loop_ok_cong:
  assumes "interval t = interval s" "status t = status s" "identityBase64 t = identityBase64 s"
    "swappedFrame t = swappedFrame s" "isProcessing t = isProcessing s"
  shows "loop_ok t = loop_ok s"
  using assms by (simp add: loop_ok_def swapping_def deps_loop_def cr_simps split: option.split)

lemma request_length: "length (request env c) = (if request env c \<noteq> [] then 1 else 0)"
  by (cases env) (simp_all add: request_def)

lemma commit_single_flight:
  assumes "single_flight s"
  shows "single_flight (commit env s)"
proof (cases "run_loop s \<and> swapping s \<and> \<not> isProcessing s")
  case True
  with assms have "swaps s = []" by (simp add: single_flight_def)
  with True show ?thesis
    using request_length [of env "current_render s"]
    by (simp add: single_flight_def commit_swaps commit_isProcessing)
next
  case False
  then have "swaps (commit env s) = swaps s" "isProcessing (commit env s) = isProcessing s"
    by (auto simp: commit_swaps commit_isProcessing)
  with assms show ?thesis
    by (simp add: single_flight_def)
qed

lemma commit_loop_ok:
  assumes "run_loop s \<or> loop_ok s"
  shows "run_loop (commit env s) \<or> loop_ok (commit env s)"
proof (cases "run_loop (commit env s)")
  case True
  then show ?thesis by simp
next
  case False
  let ?t = "commit env s"
  from False have same: "identityBase64 ?t = identityBase64 s" "swappedFrame ?t = swappedFrame s"
      "isProcessing ?t = isProcessing s"
    by (simp_all add: run_after_commit)
  have st: "status ?t = status s" by (rule commit_status)
  have sw: "swapping ?t = swapping s" by (simp add: swapping_def same st)
  have "loop_ok ?t"
  proof (cases "run_loop s")
    case True
    show ?thesis
    proof (cases "swapping s")
      case True
      with \<open>run_loop s\<close> have "interval ?t = Some (current_render s)"
        by (simp add: commit_interval)
      with True sw same st show ?thesis
        by (simp add: loop_ok_def deps_loop_def cr_simps)
    next
      case False
      with \<open>run_loop s\<close> have "interval ?t = None" "swappedFrame ?t = None"
        by (simp_all add: commit_interval commit_swappedFrame)
      with False sw show ?thesis by (simp add: loop_ok_def)
    qed
  next
    case False
    with assms have ok: "loop_ok s" by simp
    from False have "interval ?t = interval s" by (simp add: commit_interval)
    with same st have "loop_ok ?t = loop_ok s" by (intro loop_ok_cong)
    with ok show ?thesis by simp
  qed
  then show ?thesis by simp
qed

lemma commit_pre_inv: "pre_inv s \<Longrightarrow> pre_inv (commit env s)"
  by (simp add: pre_inv_def commit_single_flight commit_loop_ok)

lemma settle_feed_inv:
  assumes "pre_inv s"
  shows "feed_inv (settle env s)"
proof -
  have q: "quiescent (settle env s)" by (rule settle_quiescent)
  from assms have "pre_inv (settle env s)"
    by (simp add: settle_commits commit_pre_inv)
  with q show ?thesis by (simp add: feed_inv_def pre_inv_def quiescent_iff)
qed

lemma feed_initial_pre_inv: "pre_inv (feed_initial st url)"
  by (simp add: pre_inv_def feed_initial_def run_loop_def changed_def single_flight_def)

lemma feed_mount_inv: "feed_inv (feed_mount env st url)"
  by (simp add: feed_mount_def settle_feed_inv feed_initial_pre_inv)

lemma run_loop_iff:
  assumes "committed t = Some (current_render s)"
  shows "run_loop t = (status t \<noteq> status s \<or> identityBase64 t \<noteq> identityBase64 s \<or>
     swappedFrame t \<noteq> swappedFrame s \<or> isProcessing t \<noteq> isProcessing s)"
  using assms by (auto simp: run_loop_def changed_def deps_loop_def cr_simps)

lemma handler_loop_ok:
  assumes "quiescent s" "loop_ok s" "committed t = committed s" "interval t = interval s"
  shows "run_loop t \<or> loop_ok t"
proof (cases "run_loop t")
  case True
  then show ?thesis by simp
next
  case False
  from assms(1,3) have c: "committed t = Some (current_render s)" by (simp add: quiescent_def)
  from False have "status t = status s" "identityBase64 t = identityBase64 s"
      "swappedFrame t = swappedFrame s" "isProcessing t = isProcessing s"
    unfolding run_loop_iff [OF c] by simp_all
  with assms(4) have "loop_ok t = loop_ok s" by (intro loop_ok_cong)
  with assms(2) show ?thesis by simp
qed

lemma processFrame_frame:
  "committed (processFrame env c s) = committed s" "interval (processFrame env c s) = interval s"
  "status (processFrame env c s) = status s"
  "swappedFrame (processFrame env c s) = swappedFrame s"
  "identityBase64 (processFrame env c s) = identityBase64 s"
  by (simp_all add: processFrame_eq)

lemma processFrame_single_flight:
  assumes "single_flight s" "r_isProcessing c = isProcessing s"
  shows "single_flight (processFrame env c s)"
proof (cases "passes c s")
  case True
  with assms have "swaps s = []" by (simp add: passes_def single_flight_def)
  with True show ?thesis
    using request_length [of env c] by (simp add: processFrame_eq single_flight_def)
next
  case False
  with assms(1) show ?thesis by (simp add: processFrame_eq)
qed

lemma interval_closure:
  assumes "loop_ok s" "interval s = Some c"
  shows "swapping s" "r_status c = status s" "r_identityBase64 c = identityBase64 s"
    "r_swappedFrame c = swappedFrame s" "r_isProcessing c = isProcessing s"
  using assms by (simp_all add: loop_ok_def deps_loop_def cr_simps)

lemma drop_at_single: "length xs = 1 \<Longrightarrow> k < length xs \<Longrightarrow> drop_at k xs = []"
  by (cases xs) (simp_all add: drop_at_def)

lemma resume_single_flight:
  assumes "single_flight s" "k < length (swaps s)"
  shows "single_flight (processFrame_resume k r s)"
proof -
  from assms have "length (swaps s) = 1"
    by (auto simp: single_flight_def split: if_splits)
  with assms(2) have "drop_at k (swaps s) = []" by (simp add: drop_at_single)
  then show ?thesis by (simp add: processFrame_resume_def single_flight_def)
qed

lemma handle_frame:
  "committed (feed_handle env e s) = committed s" "interval (feed_handle env e s) = interval s"
  by (cases e; simp add: processFrame_frame processFrame_resume_def split: option.split)+

lemma single_flight_cong:
  "swaps t = swaps s \<Longrightarrow> isProcessing t = isProcessing s \<Longrightarrow> single_flight t = single_flight s"
  by (simp add: single_flight_def)

lemma handle_single_flight:
  assumes "loop_ok s" "single_flight s"
  shows "single_flight (feed_handle env e s)"
proof (cases e)
  case (Props st url)
  then have "single_flight (feed_handle env e s) = single_flight s"
    by (intro single_flight_cong) (simp_all)
  with assms(2) show ?thesis by simp
next
  case Tick
  show ?thesis
  proof (cases "interval s")
    case None
    with Tick assms(2) show ?thesis by simp
  next
    case (Some c)
    with assms(1) have "r_isProcessing c = isProcessing s" by (rule interval_closure)
    with assms(2) Some Tick show ?thesis by (simp add: processFrame_single_flight)
  qed
next
  case (SwapSettled k r)
  with assms(2) show ?thesis by (simp add: resume_single_flight)
next
  case (UrlSettled k img)
  then have "single_flight (feed_handle env e s) = single_flight s"
    by (intro single_flight_cong) (simp_all)
  with assms(2) show ?thesis by simp
next
  case (CameraSettled h)
  then have "single_flight (feed_handle env e s) = single_flight s"
    by (intro single_flight_cong) (simp_all split: option.split)
  with assms(2) show ?thesis by simp
qed

lemma handle_pre_inv:
  assumes "feed_inv s"
  shows "pre_inv (feed_handle env e s)"
proof -
  from assms have q: "quiescent s" and ok: "loop_ok s" and sf: "single_flight s"
    by (simp_all add: feed_inv_def)
  from q ok have "run_loop (feed_handle env e s) \<or> loop_ok (feed_handle env e s)"
    by (rule handler_loop_ok) (rule handle_frame)+
  moreover from ok sf have "single_flight (feed_handle env e s)" by (rule handle_single_flight)
  ultimately show ?thesis by (simp add: pre_inv_def)
qed

lemma feed_step_inv: "feed_inv s \<Longrightarrow> feed_inv (feed_step ev s)"
  by (simp add: feed_step_def settle_feed_inv handle_pre_inv)

lemma feed_run_inv: "feed_inv s \<Longrightarrow> feed_inv (feed_run s evs)"
  unfolding feed_run_def
  by (induction evs rule: rev_induct) (simp_all add: feed_step_inv)

lemma feed_reachable_inv: "feed_inv (feed_run (feed_mount env st url) evs)"
  by (simp add: feed_run_inv feed_mount_inv)

lemma settle_status: "status (settle env s) = status s"
  by (simp add: settle_commits commit_status)

lemma quiescent_settle: "quiescent s \<Longrightarrow> settle env s = s"
  by (simp add: settle_cases)

lemma inv_not_swapping:
  assumes "feed_inv s" "\<not> swapping s"
  shows "swappedFrame s = None" "interval s = None"
  using assms by (auto simp: feed_inv_def loop_ok_def split: option.splits)

lemma inv_busy:
  assumes "feed_inv s"
  shows "length (swaps s) \<le> 1" "swaps s \<noteq> [] \<Longrightarrow> isProcessing s"
  using assms by (auto simp: feed_inv_def single_flight_def split: if_splits)

lemma tick_dropped:
  assumes "feed_inv s" "isProcessing s \<or> status s \<noteq> SWAPPING \<or> \<not> truthy (identityBase64 s)"
  shows "feed_step (env, Tick) s = s"
proof -
  from assms(1) have q: "quiescent s" and ok: "loop_ok s" by (simp_all add: feed_inv_def)
  have "feed_handle env Tick s = s"
  proof (cases "interval s")
    case None
    then show ?thesis by simp
  next
    case (Some c)
    with ok have "r_status c = status s" "r_identityBase64 c = identityBase64 s"
        "r_isProcessing c = isProcessing s"
      by (simp_all add: interval_closure)
    with assms(2) have "\<not> passes c s" by (auto simp: passes_def)
    with Some show ?thesis by (simp add: processFrame_eq)
  qed
  with q show ?thesis by (simp add: feed_step_def quiescent_settle)
qed



section \<open>Properties of the camera feed\<close>

lemma handle_status:
  "status (feed_handle env e s) = (case e of Props st url \<Rightarrow> st | _ \<Rightarrow> status s)"
  by (cases e) (simp_all add: processFrame_frame processFrame_resume_def split: option.split)

lemma feed_step_status:
  "status (feed_step (env, e) s) = (case e of Props st url \<Rightarrow> st | _ \<Rightarrow> status s)"
  by (simp add: feed_step_def settle_status handle_status)

lemma sys_init_inv: "sys_inv (sys_init env)"
proof -
  have "status (feed_mount env st url) = st" for st url
    by (simp add: feed_mount_def settle_status feed_initial_def)
  then show ?thesis
    by (simp add: sys_inv_def sys_init_def feed_mount_inv app_inv_init)
qed

lemma sys_step_inv: "sys_inv S \<Longrightarrow> sys_inv (sys_step ev S)"
proof (cases ev)
  case (Pair env e)
  assume "sys_inv S"
  with Pair show ?thesis
    by (cases e)
       (auto simp: sys_inv_def feed_step_inv app_inv_step feed_step_status split: FeedEvent.splits)
qed

lemma sys_run_inv: "sys_inv (sys_run env evs)"
  unfolding sys_run_def
  by (induction evs rule: rev_induct) (simp_all add: sys_init_inv sys_step_inv)

lemma deactivation_clears:
  assumes "quiescent s" "activeIdentityUrl s \<noteq> url" "\<not> truthy url"
  shows "identityBase64 (feed_step (env, Props st url) s) = None"
proof -
  let ?h = "feed_handle env (Props st url) s"
  from assms(1,2) have "run_identity ?h"
    by (simp add: run_identity_def quiescent_def changed_def deps_identity_def cr_simps)
  with assms(3) have "identityBase64 (commit env ?h) = None"
    by (simp add: commit_identityBase64)
  then have "identityBase64 (commit env (commit env ?h)) = None"
    by (simp add: commit_identityBase64)
  then show ?thesis by (simp add: feed_step_def settle_commits)
qed

text \<open>
  C1. Events are taken one at a time, each with the renders and effects it causes. In
  every state the component reaches from its mount, by any sequence of prop changes,
  timer ticks and settling swap calls, conversions and acquisitions, at most one
  \<^verbatim>\<open>performFaceSwap\<close> call is pending, and one is pending only while
  \<^verbatim>\<open>isProcessing\<close> is set. A tick that fires while \<^verbatim>\<open>isProcessing\<close> is set, or while
  the status is not \<^verbatim>\<open>SWAPPING\<close>, or without a target payload, leaves the whole state
  as it is: no request is sent and nothing is kept for later.
\<close>

theorem single_flight_invariant:
  fixes env0 st0 url0 evs
  defines "s \<equiv> feed_run (feed_mount env0 st0 url0) evs"
  shows "length (swaps s) \<le> 1 \<and> (swaps s \<noteq> [] \<longrightarrow> isProcessing s) \<and>
    (isProcessing s \<or> status s \<noteq> SWAPPING \<or> \<not> truthy (identityBase64 s) \<longrightarrow>
       feed_step (env, Tick) s = s)"
proof -
  have inv: "feed_inv s" unfolding s_def by (rule feed_reachable_inv)
  from inv have "length (swaps s) \<le> 1" by (rule inv_busy)
  moreover from inv have "swaps s \<noteq> [] \<longrightarrow> isProcessing s" by (simp add: inv_busy)
  moreover from inv
  have "isProcessing s \<or> status s \<noteq> SWAPPING \<or> \<not> truthy (identityBase64 s) \<longrightarrow>
       feed_step (env, Tick) s = s"
    by (simp add: tick_dropped)
  ultimately show ?thesis by simp
qed

text \<open>
  C3. In every state the component reaches, the swapped frame is \<^verbatim>\<open>null\<close> and no
  timer is set unless the status is \<^verbatim>\<open>SWAPPING\<close>. So the step in which the props
  leave \<^verbatim>\<open>SWAPPING\<close> (persona toggled off, camera shut down) ends with the frame
  cleared and the timer gone, and so does the step in which the active identity is
  taken away. The same holds for the feed inside the application, for the status the
  application holds.
\<close>

theorem leaving_swapping_clears_anchor:
  fixes env0 st0 url0 evs
  defines "s \<equiv> feed_run (feed_mount env0 st0 url0) evs"
  shows "(status s \<noteq> SWAPPING \<longrightarrow> swappedFrame s = None \<and> interval s = None) \<and>
    (st \<noteq> SWAPPING \<longrightarrow>
       swappedFrame (feed_step (env, Props st url) s) = None \<and>
       interval (feed_step (env, Props st url) s) = None) \<and>
    (activeIdentityUrl s \<noteq> url \<and> \<not> truthy url \<longrightarrow>
       swappedFrame (feed_step (env, Props st url) s) = None \<and>
       interval (feed_step (env, Props st url) s) = None) \<and>
    (cameraStatus (app (sys_run env0 sevs)) \<noteq> SWAPPING \<longrightarrow>
       swappedFrame (feed (sys_run env0 sevs)) = None \<and>
       interval (feed (sys_run env0 sevs)) = None)"
proof -
  have inv: "feed_inv s" unfolding s_def by (rule feed_reachable_inv)
  have idle: "swappedFrame t = None \<and> interval t = None"
    if "feed_inv t" "status t \<noteq> SWAPPING \<or> identityBase64 t = None" for t
  proof -
    from that(2) have "\<not> swapping t" by (auto simp: swapping_def not_truthy_None)
    with that(1) show ?thesis by (simp add: inv_not_swapping)
  qed
  let ?t = "feed_step (env, Props st url) s"
  from inv have invt: "feed_inv ?t" by (rule feed_step_inv)
  have a: "status s \<noteq> SWAPPING \<longrightarrow> swappedFrame s = None \<and> interval s = None"
    using idle [OF inv] by simp
  have b: "st \<noteq> SWAPPING \<longrightarrow> swappedFrame ?t = None \<and> interval ?t = None"
    using idle [OF invt] by (simp add: feed_step_status)
  have c: "activeIdentityUrl s \<noteq> url \<and> \<not> truthy url \<longrightarrow>
      swappedFrame ?t = None \<and> interval ?t = None"
  proof
    assume h: "activeIdentityUrl s \<noteq> url \<and> \<not> truthy url"
    from inv have "quiescent s" by (simp add: feed_inv_def)
    with h have "identityBase64 ?t = None" by (simp add: deactivation_clears)
    with idle [OF invt] show "swappedFrame ?t = None \<and> interval ?t = None" by simp
  qed
  have d: "cameraStatus (app (sys_run env0 sevs)) \<noteq> SWAPPING \<longrightarrow>
       swappedFrame (feed (sys_run env0 sevs)) = None \<and>
       interval (feed (sys_run env0 sevs)) = None"
    using sys_run_inv [of env0 sevs] idle [of "feed (sys_run env0 sevs)"]
    by (simp add: sys_inv_def)
  from a b c d show ?thesis by blast
qed


theorem single_flight_invariant_witness:
  "isProcessing (feed_run (feed_mount NoContext INACTIVE None)
      [(Captured ''f1'', Props SWAPPING (Some ''data:A'')),
       (Captured ''f1'', UrlSettled 0 ImageError)]) \<and>
   swaps (feed_run (feed_mount NoContext INACTIVE None)
      [(Captured ''f1'', Props SWAPPING (Some ''data:A'')),
       (Captured ''f1'', UrlSettled 0 ImageError)]) =
     [\<lparr>sourceBase64 = ''f1'', targetBase64 = ''data:A'', previousResultBase64 = None\<rparr>] \<and>
   feed_step (Captured ''f2'', Tick)
     (feed_run (feed_mount NoContext INACTIVE None)
      [(Captured ''f1'', Props SWAPPING (Some ''data:A'')),
       (Captured ''f1'', UrlSettled 0 ImageError)]) =
   feed_run (feed_mount NoContext INACTIVE None)
      [(Captured ''f1'', Props SWAPPING (Some ''data:A'')),
       (Captured ''f1'', UrlSettled 0 ImageError)]"
proof -
  let ?s = "feed_run (feed_mount NoContext INACTIVE None)
      [(Captured ''f1'', Props SWAPPING (Some ''data:A'')),
       (Captured ''f1'', UrlSettled 0 ImageError)]"
  have h: "isProcessing ?s" by code_simp
  have r: "swaps ?s =
     [\<lparr>sourceBase64 = ''f1'', targetBase64 = ''data:A'', previousResultBase64 = None\<rparr>]"
    by code_simp
  from single_flight_invariant
    [of NoContext INACTIVE None "[(Captured ''f1'', Props SWAPPING (Some ''data:A'')),
       (Captured ''f1'', UrlSettled 0 ImageError)]" "Captured ''f2''"] h
  have "feed_step (Captured ''f2'', Tick) ?s = ?s" by blast
  with h r show ?thesis by blast
qed



lemma run_camera_iff:
  assumes "committed t = Some (current_render s)"
  shows "run_camera t = (status t \<noteq> status s)"
  using assms by (auto simp: run_camera_def changed_def deps_camera_def cr_simps)







text \<open>
  C2, evaluated on the code. The operator powers on, selects identity 1, activates the
  persona and the first swap returns frame X (synced); a click on the card of identity 2
  leaves the swapped frame X in place, the orchestrator stays synced, and as soon as the
  image of identity 2 is converted a request goes out with the new target and the old
  anchor X.
\<close>

theorem identity_switch_keeps_anchor:
  "arm_state (feed (sys_run NoContext
     [(NoContext, User PowerClick), (NoContext, Async (CameraSettled (Some 1))),
      (NoContext, User (CardClick ''1'')),
      (NoContext, Async (UrlSettled 0 (ImageLoaded (Some ''data:image/jpeg;base64,AAAA'')))),
      (Captured ''f1'', User PersonaClick),
      (NoContext, Async (SwapSettled 0 (Candidate [Inline (Some ''X'')])))])) = Synced \<and>
   swappedFrame (feed (sys_run NoContext
     [(NoContext, User PowerClick), (NoContext, Async (CameraSettled (Some 1))),
      (NoContext, User (CardClick ''1'')),
      (NoContext, Async (UrlSettled 0 (ImageLoaded (Some ''data:image/jpeg;base64,AAAA'')))),
      (Captured ''f1'', User PersonaClick),
      (NoContext, Async (SwapSettled 0 (Candidate [Inline (Some ''X'')]))),
      (NoContext, User (CardClick ''2''))])) = Some ''data:image/png;base64,X'' \<and>
   arm_state (feed (sys_run NoContext
     [(NoContext, User PowerClick), (NoContext, Async (CameraSettled (Some 1))),
      (NoContext, User (CardClick ''1'')),
      (NoContext, Async (UrlSettled 0 (ImageLoaded (Some ''data:image/jpeg;base64,AAAA'')))),
      (Captured ''f1'', User PersonaClick),
      (NoContext, Async (SwapSettled 0 (Candidate [Inline (Some ''X'')]))),
      (NoContext, User (CardClick ''2''))])) = Synced \<and>
   swaps (feed (sys_run NoContext
     [(NoContext, User PowerClick), (NoContext, Async (CameraSettled (Some 1))),
      (NoContext, User (CardClick ''1'')),
      (NoContext, Async (UrlSettled 0 (ImageLoaded (Some ''data:image/jpeg;base64,AAAA'')))),
      (Captured ''f1'', User PersonaClick),
      (NoContext, Async (SwapSettled 0 (Candidate [Inline (Some ''X'')]))),
      (NoContext, User (CardClick ''2'')),
      (Captured ''f2'',
        Async (UrlSettled 0 (ImageLoaded (Some ''data:image/jpeg;base64,BBBB''))))])) =
     [\<lparr>sourceBase64 = ''f2'', targetBase64 = ''data:image/jpeg;base64,BBBB'',
       previousResultBase64 = Some ''data:image/png;base64,X''\<rparr>]"
  by code_simp

theorem leaving_swapping_clears_anchor_witness:
  "status (feed_run (feed_mount NoContext INACTIVE None) []) \<noteq> SWAPPING \<and>
   swappedFrame (feed_run (feed_mount NoContext INACTIVE None) []) = None \<and>
   status (feed_run (feed_mount NoContext INACTIVE None)
      [(NoContext, Props SWAPPING (Some ''data:A'')),
       (Captured ''f1'', UrlSettled 0 ImageError),
       (NoContext, SwapSettled 0 (Candidate [Inline (Some ''X'')]))]) = SWAPPING \<and>
   swappedFrame (feed_run (feed_mount NoContext INACTIVE None)
      [(NoContext, Props SWAPPING (Some ''data:A'')),
       (Captured ''f1'', UrlSettled 0 ImageError),
       (NoContext, SwapSettled 0 (Candidate [Inline (Some ''X'')]))]) =
     Some ''data:image/png;base64,X'' \<and>
   swappedFrame (feed_step (NoContext, Props ACTIVE (Some ''data:A''))
     (feed_run (feed_mount NoContext INACTIVE None)
      [(NoContext, Props SWAPPING (Some ''data:A'')),
       (Captured ''f1'', UrlSettled 0 ImageError),
       (NoContext, SwapSettled 0 (Candidate [Inline (Some ''X'')]))])) = None \<and>
   swappedFrame (feed_step (NoContext, Props SWAPPING None)
     (feed_run (feed_mount NoContext INACTIVE None)
      [(NoContext, Props SWAPPING (Some ''data:A'')),
       (Captured ''f1'', UrlSettled 0 ImageError),
       (NoContext, SwapSettled 0 (Candidate [Inline (Some ''X'')]))])) = None \<and>
   cameraStatus (app (sys_run NoContext [])) = INACTIVE \<and>
   swappedFrame (feed (sys_run NoContext [])) = None"
proof -
  let ?evs = "[(NoContext, Props SWAPPING (Some ''data:A'')),
       (Captured ''f1'', UrlSettled 0 ImageError),
       (NoContext, SwapSettled 0 (Candidate [Inline (Some ''X'')]))]"
  let ?s = "feed_run (feed_mount NoContext INACTIVE None) ?evs"
  have a: "status (feed_run (feed_mount NoContext INACTIVE None) []) \<noteq> SWAPPING" by code_simp
  have b: "status ?s = SWAPPING" by code_simp
  have c: "swappedFrame ?s = Some ''data:image/png;base64,X''" by code_simp
  have d: "activeIdentityUrl ?s \<noteq> None \<and> \<not> truthy None" by code_simp
  have e: "cameraStatus (app (sys_run NoContext [])) = INACTIVE" by code_simp
  note t0 = leaving_swapping_clears_anchor [where ?env0.0 = NoContext and ?st0.0 = INACTIVE
      and ?url0.0 = None and evs = "[]" and st = ACTIVE and env = NoContext and url = None
      and sevs = "[]"]
  note t1 = leaving_swapping_clears_anchor [where ?env0.0 = NoContext and ?st0.0 = INACTIVE
      and ?url0.0 = None and evs = ?evs and st = ACTIVE and env = NoContext
      and url = "Some ''data:A''" and sevs = "[]"]
  note t2 = leaving_swapping_clears_anchor [where ?env0.0 = NoContext and ?st0.0 = INACTIVE
      and ?url0.0 = None and evs = ?evs and st = SWAPPING and env = NoContext and url = None
      and sevs = "[]"]
  from t0 a e have "swappedFrame (feed_run (feed_mount NoContext INACTIVE None) []) = None"
    and "swappedFrame (feed (sys_run NoContext [])) = None"
    by simp_all
  moreover from t1
  have "swappedFrame (feed_step (NoContext, Props ACTIVE (Some ''data:A'')) ?s) = None"
    by simp
  moreover from t2 d
  have "swappedFrame (feed_step (NoContext, Props SWAPPING None) ?s) = None"
    by simp
  ultimately show ?thesis using a b c e by simp
qed

lemma settle_acquisitions:
  assumes "committed h = Some (current_render s)"
  shows "acquisitions (settle env h) =
    (if status h \<noteq> status s \<and> status h \<noteq> INACTIVE then Suc (acquisitions h)
     else acquisitions h)"
  by (simp add: settle_commits commit_acquisitions run_after_commit run_camera_iff [OF assms])

lemma settle_stream:
  assumes "committed h = Some (current_render s)" "status h = status s"
  shows "stream (settle env h) = stream h"
  by (simp add: settle_commits commit_stream run_after_commit run_camera_iff [OF assms(1)] assms(2))

text \<open>
  C8, as the code has it. The power toggle takes an \<^verbatim>\<open>INACTIVE\<close> session straight to
  \<^verbatim>\<open>ACTIVE\<close>; no state the application reaches has status \<^verbatim>\<open>LOADING\<close>. The feed
  then starts one camera acquisition. No asynchronous event of the feed changes the
  application, so a failed acquisition leaves the status as it is, and it leaves the
  stream of the feed as it was: none is gained, and one held from before stays.
\<close>

theorem power_on_goes_active:
  "(cameraStatus a = INACTIVE \<longrightarrow> cameraStatus (app_step PowerClick a) = ACTIVE) \<and>
   cameraStatus (app_run es) \<noteq> LOADING \<and>
   cameraStatus (app (sys_run env0 evs)) \<noteq> LOADING \<and>
   (cameraStatus (app (sys_run env0 evs)) = INACTIVE \<longrightarrow>
      cameraStatus (app (sys_step (env, User PowerClick) (sys_run env0 evs))) = ACTIVE \<and>
      acquisitions (feed (sys_step (env, User PowerClick) (sys_run env0 evs))) =
        Suc (acquisitions (feed (sys_run env0 evs)))) \<and>
   app (sys_step (env, Async e) S) = app S \<and>
   cameraStatus (app (sys_step (env, Async (CameraSettled None)) S)) = cameraStatus (app S) \<and>
   stream (feed (sys_step (env, Async (CameraSettled None)) (sys_run env0 evs))) =
     stream (feed (sys_run env0 evs))"
proof -
  let ?S = "sys_run env0 evs"
  have inv: "sys_inv ?S" by (rule sys_run_inv)
  then have q: "committed (feed ?S) = Some (current_render (feed ?S))"
    and sync: "status (feed ?S) = cameraStatus (app ?S)"
    by (simp_all add: sys_inv_def feed_inv_def quiescent_def)
  have a: "cameraStatus a = INACTIVE \<longrightarrow> cameraStatus (app_step PowerClick a) = ACTIVE"
    by (simp add: toggleCamera_def)
  have b: "cameraStatus (app_run es) \<noteq> LOADING"
    using app_inv_run [of es] by (simp add: app_inv_def)
  have c: "cameraStatus (app ?S) \<noteq> LOADING"
    using inv by (simp add: sys_inv_def app_inv_def)
  have d: "cameraStatus (app (sys_step (env, User PowerClick) ?S)) = ACTIVE \<and>
      acquisitions (feed (sys_step (env, User PowerClick) ?S)) = Suc (acquisitions (feed ?S))"
    if off: "cameraStatus (app ?S) = INACTIVE"
  proof -
    let ?h = "feed_handle env (Props ACTIVE (app_activeIdentityUrl (toggleCamera (app ?S)))) (feed ?S)"
    have c: "committed ?h = Some (current_render (feed ?S))" using q by simp
    have "acquisitions (settle env ?h) = Suc (acquisitions (feed ?S))"
      using off sync settle_acquisitions [OF c, of env] by simp
    with off show ?thesis by (simp add: toggleCamera_def feed_step_def)
  qed
  have e: "app (sys_step (env, Async e) S) = app S"
    by (cases e) simp_all
  have f: "stream (feed (sys_step (env, Async (CameraSettled None)) ?S)) = stream (feed ?S)"
  proof -
    let ?h = "feed_handle env (CameraSettled None) (feed ?S)"
    have c: "committed ?h = Some (current_render (feed ?S))" using q by simp
    have "stream (settle env ?h) = stream ?h"
      by (rule settle_stream [OF c]) simp
    then show ?thesis by (simp add: feed_step_def)
  qed
  have g: "cameraStatus (app (sys_step (env, Async (CameraSettled None)) S)) =
      cameraStatus (app S)"
    by simp
  from a b c d e f g show ?thesis by blast
qed

theorem power_on_goes_active_witness:
  "cameraStatus app_init = INACTIVE \<and> cameraStatus (app_step PowerClick app_init) = ACTIVE \<and>
   cameraStatus (app (sys_run NoContext [])) = INACTIVE \<and>
   cameraStatus (app (sys_step (NoContext, User PowerClick) (sys_run NoContext []))) = ACTIVE \<and>
   acquisitions (feed (sys_step (NoContext, User PowerClick) (sys_run NoContext []))) = 1 \<and>
   cameraStatus (app (sys_step (NoContext, Async (CameraSettled None))
     (sys_step (NoContext, User PowerClick) (sys_run NoContext [])))) = ACTIVE"
proof -
  have a: "cameraStatus app_init = INACTIVE" by (simp add: app_init_def)
  have b: "cameraStatus (app (sys_run NoContext [])) = INACTIVE" by code_simp
  have c: "acquisitions (feed (sys_run NoContext [])) = 0" by code_simp
  from power_on_goes_active [of app_init "[]" NoContext "[]" NoContext] a b
  have "cameraStatus (app_step PowerClick app_init) = ACTIVE \<and>
      cameraStatus (app (sys_step (NoContext, User PowerClick) (sys_run NoContext []))) = ACTIVE \<and>
      acquisitions (feed (sys_step (NoContext, User PowerClick) (sys_run NoContext []))) =
        Suc (acquisitions (feed (sys_run NoContext [])))"
    by blast
  moreover from power_on_goes_active
    [where env = NoContext and S = "sys_step (NoContext, User PowerClick) (sys_run NoContext [])"]
  have "cameraStatus (app (sys_step (NoContext, Async (CameraSettled None))
      (sys_step (NoContext, User PowerClick) (sys_run NoContext [])))) =
    cameraStatus (app (sys_step (NoContext, User PowerClick) (sys_run NoContext [])))"
    by blast
  ultimately show ?thesis using a b c by (simp del: sys_step.simps app_step.simps)
qed

theorem power_on_skips_loading:
  "cameraStatus (app (sys_run NoContext [(NoContext, User PowerClick)])) = ACTIVE \<and>
   cameraStatus (app (sys_run NoContext [(NoContext, User PowerClick)])) \<noteq> LOADING \<and>
   acquisitions (feed (sys_run NoContext [(NoContext, User PowerClick)])) = 1 \<and>
   cameraStatus (app (sys_run NoContext
     [(NoContext, User PowerClick), (NoContext, Async (CameraSettled None))])) = ACTIVE \<and>
   stream (feed (sys_run NoContext
     [(NoContext, User PowerClick), (NoContext, Async (CameraSettled None))])) = None"
  by code_simp


section \<open>Properties of the inference client and the codec\<close>

lemma split_on_nonempty: "split_on c xs \<noteq> []"
  by (induction xs) (simp_all split: list.split)

lemma split_on_hd: "hd (split_on c xs) = takeWhile (\<lambda>x. x \<noteq> c) xs"
  by (induction xs) (auto simp: split_on_nonempty split: list.split)

lemma split_on_append:
  "c \<notin> set a \<Longrightarrow> split_on c (a @ c # b) = a # split_on c b"
  by (induction a) auto

lemma clean_envelope:
  assumes "CHR '','' \<notin> set e"
  shows "clean (e @ CHR '','' # p) = Some (takeWhile (\<lambda>x. x \<noteq> CHR '','') p)"
proof -
  have "split_on (CHR '','') (e @ CHR '','' # p) = e # split_on (CHR '','') p"
    using assms by (rule split_on_append)
  moreover have "split_on (CHR '','') p = hd (split_on (CHR '','') p) # tl (split_on (CHR '','') p)"
    using split_on_nonempty [of "CHR '',''" p] by simp
  ultimately have "at_index (split_on (CHR '','') (e @ CHR '','' # p)) 1 =
      Some (hd (split_on (CHR '','') p))"
    by (metis One_nat_def at_index_def length_Cons less_Suc_eq_0_disj nth_Cons_0 nth_Cons_Suc zero_less_Suc)
  then show ?thesis by (simp add: clean_def includes_char_def split_on_hd)
qed

lemma clean_defined: "clean x \<noteq> None"
proof (cases "CHR '','' \<in> set x")
  case True
  then obtain e p where "x = e @ CHR '','' # p" "CHR '','' \<notin> set e"
    by (meson split_list_first)
  then show ?thesis by (simp add: clean_envelope)
next
  case False
  then show ?thesis by (simp add: clean_def includes_char_def)
qed


lemma clean_general:
  assumes "CHR '','' \<in> set x"
  shows "clean x = Some (takeWhile (\<lambda>c. c \<noteq> CHR '','') (tl (dropWhile (\<lambda>c. c \<noteq> CHR '','') x)))"
proof -
  from assms obtain e p where x: "x = e @ CHR '','' # p" and e: "CHR '','' \<notin> set e"
    by (meson split_list_first)
  from e have "dropWhile (\<lambda>c. c \<noteq> CHR '','') (e @ CHR '','' # p) = CHR '','' # p"
    by (induction e) auto
  with x e show ?thesis by (simp add: clean_envelope)
qed

text \<open>
  C7, as the code has it. The parts of a swap request are the cleaned source, the cleaned
  target, then the cleaned anchor exactly when an anchor is given whose cleaned payload
  is a non-empty string, then one text part, the only one, whose content depends on
  nothing but the presence of that anchor part (and differs with it). All images carry
  the media type \<^verbatim>\<open>image/jpeg\<close>. The anchor is cleaned as the source and the target
  are. Cleaning always yields a string: the input itself when it has no comma, otherwise
  what stands between its first comma and the next one (or the end), which for an
  envelope and a payload without commas is the payload.
\<close>

theorem swap_request_framing:
  "length (swap_parts src tgt prev) = (if truthy (cleanPrevious prev) then 4 else 3) \<and>
   swap_parts src tgt prev ! 0 = InlineData (clean src) ''image/jpeg'' \<and>
   swap_parts src tgt prev ! 1 = InlineData (clean tgt) ''image/jpeg'' \<and>
   (truthy (cleanPrevious prev) \<longrightarrow>
      swap_parts src tgt prev ! 2 = InlineData (cleanPrevious prev) ''image/jpeg'') \<and>
   cleanPrevious None = None \<and>
   cleanPrevious (Some a) = clean a \<and>
   (truthy (clean a) \<longrightarrow>
      length (swap_parts src tgt (Some a)) = 4 \<and>
      swap_parts src tgt (Some a) ! 2 = InlineData (clean a) ''image/jpeg'') \<and>
   (\<not> truthy (clean a) \<longrightarrow> length (swap_parts src tgt (Some a)) = 3) \<and>
   length (swap_parts src tgt None) = 3 \<and>
   last (swap_parts src tgt prev) = TextPart (instruction (truthy (cleanPrevious prev))) \<and>
   filter is_text (swap_parts src tgt prev) =
     [TextPart (instruction (truthy (cleanPrevious prev)))] \<and>
   (\<forall>q \<in> set (swap_parts src tgt prev). is_text q \<or> (\<exists>d. q = InlineData d ''image/jpeg'')) \<and>
   truthy (cleanPrevious prev) = (\<exists>b y. prev = Some b \<and> clean b = Some y \<and> y \<noteq> []) \<and>
   instruction True \<noteq> instruction False \<and>
   clean x \<noteq> None \<and>
   (CHR '','' \<notin> set x \<longrightarrow> clean x = Some x) \<and>
   (CHR '','' \<in> set x \<longrightarrow>
      clean x = Some (takeWhile (\<lambda>c. c \<noteq> CHR '','')
        (tl (dropWhile (\<lambda>c. c \<noteq> CHR '','') x)))) \<and>
   (CHR '','' \<notin> set e \<longrightarrow>
      clean (e @ CHR '','' # p) = Some (takeWhile (\<lambda>c. c \<noteq> CHR '','') p)) \<and>
   (CHR '','' \<notin> set e \<and> CHR '','' \<notin> set p \<longrightarrow> clean (e @ CHR '','' # p) = Some p)"
proof -
  have parts: "length (swap_parts src tgt v) = (if truthy (cleanPrevious v) then 4 else 3)"
    "swap_parts src tgt v ! 0 = InlineData (clean src) ''image/jpeg''"
    "swap_parts src tgt v ! 1 = InlineData (clean tgt) ''image/jpeg''"
    "truthy (cleanPrevious v) \<longrightarrow>
      swap_parts src tgt v ! 2 = InlineData (cleanPrevious v) ''image/jpeg''"
    "last (swap_parts src tgt v) = TextPart (instruction (truthy (cleanPrevious v)))"
    "filter is_text (swap_parts src tgt v) =
       [TextPart (instruction (truthy (cleanPrevious v)))]"
    "\<forall>q \<in> set (swap_parts src tgt v). is_text q \<or> (\<exists>d. q = InlineData d ''image/jpeg'')" for v
    by (simp_all add: swap_parts_def is_text_def)
  have cp: "cleanPrevious None = None" "cleanPrevious (Some a) = clean a"
    by (simp_all add: cleanPrevious_def)
  have some: "truthy (clean a) \<longrightarrow>
      length (swap_parts src tgt (Some a)) = 4 \<and>
      swap_parts src tgt (Some a) ! 2 = InlineData (clean a) ''image/jpeg''"
    and some': "\<not> truthy (clean a) \<longrightarrow> length (swap_parts src tgt (Some a)) = 3"
    using parts(1,4) [of "Some a"] by (simp_all add: cp)
  have none: "length (swap_parts src tgt None) = 3"
    using parts(1) [of None] by (simp add: cp not_truthy_None)
  have anchor: "truthy (cleanPrevious prev) = (\<exists>b y. prev = Some b \<and> clean b = Some y \<and> y \<noteq> [])"
    by (cases prev) (auto simp: cleanPrevious_def truthy_def split: option.splits)
  have instr: "instruction True \<noteq> instruction False" by code_simp
  have plain: "CHR '','' \<notin> set x \<longrightarrow> clean x = Some x"
    by (simp add: clean_def includes_char_def)
  have gen: "CHR '','' \<in> set x \<longrightarrow>
      clean x = Some (takeWhile (\<lambda>c. c \<noteq> CHR '','')
        (tl (dropWhile (\<lambda>c. c \<noteq> CHR '','') x)))"
    by (simp add: clean_general)
  have env: "CHR '','' \<notin> set e \<longrightarrow>
      clean (e @ CHR '','' # p) = Some (takeWhile (\<lambda>c. c \<noteq> CHR '','') p)"
    by (simp add: clean_envelope)
  have "takeWhile (\<lambda>c. c \<noteq> CHR '','') p = p" if "CHR '','' \<notin> set p"
    using that by (induction p) auto
  with env have env2: "CHR '','' \<notin> set e \<and> CHR '','' \<notin> set p \<longrightarrow>
      clean (e @ CHR '','' # p) = Some p"
    by simp
  note def = clean_defined [of x]
  show ?thesis
    apply (intro conjI)
    apply (rule parts(1))
    apply (rule parts(2))
    apply (rule parts(3))
    apply (rule parts(4))
    apply (rule cp(1))
    apply (rule cp(2))
    apply (rule some)
    apply (rule some')
    apply (rule none)
    apply (rule parts(5))
    apply (rule parts(6))
    apply (rule parts(7))
    apply (rule anchor)
    apply (rule instr)
    apply (rule def)
    apply (rule plain)
    apply (rule gen)
    apply (rule env)
    apply (rule env2)
    done
qed

theorem swap_request_framing_witness:
  "clean ''data:image/png;base64,PREV'' = Some ''PREV'' \<and>
   truthy (clean ''data:image/png;base64,PREV'') \<and>
   truthy (cleanPrevious (Some ''data:image/png;base64,PREV'')) \<and>
   swap_parts ''data:image/jpeg;base64,SRC'' ''data:image/jpeg;base64,TGT''
     (Some ''data:image/png;base64,PREV'') ! 2 = InlineData (Some ''PREV'') ''image/jpeg'' \<and>
   length (swap_parts ''data:image/jpeg;base64,SRC'' ''data:image/jpeg;base64,TGT''
     (Some ''data:image/png;base64,PREV'')) = 4 \<and>
   \<not> truthy (clean ''data:image/png;base64,'') \<and>
   length (swap_parts ''data:image/jpeg;base64,SRC'' ''data:image/jpeg;base64,TGT''
     (Some ''data:image/png;base64,'')) = 3 \<and>
   CHR '','' \<notin> set ''https://example.org/a.jpg'' \<and>
   clean ''https://example.org/a.jpg'' = Some ''https://example.org/a.jpg'' \<and>
   CHR '','' \<in> set ''a,b,c'' \<and> clean ''a,b,c'' = Some ''b'' \<and>
   CHR '','' \<notin> set ''data:image/jpeg;base64'' \<and> CHR '','' \<notin> set ''SRC'' \<and>
   clean (''data:image/jpeg;base64'' @ CHR '','' # ''SRC'') = Some ''SRC''"
proof -
  have a: "clean ''data:image/png;base64,PREV'' = Some ''PREV''" by code_simp
  then have a': "truthy (clean ''data:image/png;base64,PREV'')" by (simp add: truthy_def)
  have b: "\<not> truthy (clean ''data:image/png;base64,'')" by code_simp
  have c: "CHR '','' \<notin> set ''https://example.org/a.jpg''" by simp
  have d: "CHR '','' \<notin> set ''data:image/jpeg;base64'' \<and> CHR '','' \<notin> set ''SRC''" by simp
  have g: "CHR '','' \<in> set ''a,b,c''" by simp
  note t = swap_request_framing [where src = "''data:image/jpeg;base64,SRC''"
      and tgt = "''data:image/jpeg;base64,TGT''" and prev = "Some ''data:image/png;base64,PREV''"
      and a = "''data:image/png;base64,PREV''" and x = "''https://example.org/a.jpg''"
      and e = "''data:image/jpeg;base64''" and p = "''SRC''"]
  note u = swap_request_framing [where src = "''data:image/jpeg;base64,SRC''"
      and tgt = "''data:image/jpeg;base64,TGT''" and prev = None
      and a = "''data:image/png;base64,''" and x = "''a,b,c''"
      and e = "''data:image/jpeg;base64''" and p = "''SRC''"]
  from t a' have cp: "cleanPrevious (Some ''data:image/png;base64,PREV'') =
      clean ''data:image/png;base64,PREV''"
    by blast
  from t a' have
    "length (swap_parts ''data:image/jpeg;base64,SRC'' ''data:image/jpeg;base64,TGT''
       (Some ''data:image/png;base64,PREV'')) = 4 \<and>
     swap_parts ''data:image/jpeg;base64,SRC'' ''data:image/jpeg;base64,TGT''
       (Some ''data:image/png;base64,PREV'') ! 2 =
       InlineData (clean ''data:image/png;base64,PREV'') ''image/jpeg''"
    by blast
  moreover from u b
  have "length (swap_parts ''data:image/jpeg;base64,SRC'' ''data:image/jpeg;base64,TGT''
     (Some ''data:image/png;base64,'')) = 3"
    by blast
  moreover from t c
  have "clean ''https://example.org/a.jpg'' = Some ''https://example.org/a.jpg''" by blast
  moreover from u g
  have "clean ''a,b,c'' = Some (takeWhile (\<lambda>c. c \<noteq> CHR '','')
        (tl (dropWhile (\<lambda>c. c \<noteq> CHR '','') ''a,b,c'')))"
    by blast
  then have "clean ''a,b,c'' = Some ''b''" by simp
  moreover from t d
  have "clean (''data:image/jpeg;base64'' @ CHR '','' # ''SRC'') = Some ''SRC''" by blast
  ultimately show ?thesis using a a' b c d g cp by simp
qed

theorem empty_anchor_payload_omitted:
  "swap_parts ''data:image/jpeg;base64,SRC'' ''data:image/jpeg;base64,TGT''
     (Some ''data:image/png;base64,'') =
     [InlineData (Some ''SRC'') ''image/jpeg'', InlineData (Some ''TGT'') ''image/jpeg'',
      TextPart (instruction False)]"
  by code_simp

text \<open>
  C9. A URL that starts with \<^verbatim>\<open>data:\<close> is returned by \<^verbatim>\<open>urlToBase64\<close> as it is,
  whatever would happen to an image element, and is what the component stores as the
  identity payload when the conversion settles.
\<close>

theorem urlToBase64_inline_unchanged:
  assumes "startsWith url ''data:''"
  shows "urlToBase64 img url = url \<and>
    (k < length (conversions s) \<and> conversions s ! k = url \<longrightarrow>
       identityBase64 (feed_handle env (UrlSettled k img) s) = Some url)"
  using assms by (simp add: urlToBase64_def)

theorem urlToBase64_inline_unchanged_witness:
  "startsWith ''data:image/png;base64,AAAA'' ''data:'' \<and>
   urlToBase64 (ImageLoaded (Some ''data:image/jpeg;base64,ZZZZ'')) ''data:image/png;base64,AAAA''
     = ''data:image/png;base64,AAAA'' \<and>
   conversions (feed_step (NoContext, Props ACTIVE (Some ''data:image/png;base64,AAAA''))
     (feed_mount NoContext INACTIVE None)) = [''data:image/png;base64,AAAA''] \<and>
   identityBase64 (feed_handle NoContext
       (UrlSettled 0 (ImageLoaded (Some ''data:image/jpeg;base64,ZZZZ'')))
     (feed_step (NoContext, Props ACTIVE (Some ''data:image/png;base64,AAAA''))
       (feed_mount NoContext INACTIVE None))) = Some ''data:image/png;base64,AAAA''"
proof -
  let ?s = "feed_step (NoContext, Props ACTIVE (Some ''data:image/png;base64,AAAA''))
     (feed_mount NoContext INACTIVE None)"
  have h: "startsWith ''data:image/png;base64,AAAA'' ''data:''"
    by (simp add: startsWith_def)
  have c: "conversions ?s = [''data:image/png;base64,AAAA'']" by code_simp
  from urlToBase64_inline_unchanged [OF h, of "ImageLoaded (Some ''data:image/jpeg;base64,ZZZZ'')"
      0 ?s NoContext] c h
  show ?thesis by simp
qed


end
